theory Spec2Isabelle
  imports Complex_Main "HOL-Library.List_Lexorder" "HOL-Library.Char_ord" "HOL-Library.Multiset"
  "HOL-Library.Product_Lexorder"
begin

section \<open>KARP Inspector Lite: indexer and diff engine\<close>

text \<open>
  A shallow embedding of \<^verbatim>\<open>server/indexer.js\<close> and of the diff part of
  \<^verbatim>\<open>server/searcher.js\<close>.

  \<^item> JavaScript strings are \<open>string\<close>; a character stands for one code unit below 256,
    and \<open>length\<close> is the JavaScript \<^verbatim>\<open>.length\<close>.
  \<^item> JavaScript numbers are IEEE 754 doubles (\<open>jsnum\<close>): finite values, the two
    infinities and NaN. An arithmetic operation gives its exact result, rounded; the
    rounding is a parameter of the runtime (\<open>fl\<close>).
  \<^item> The module-level variables of the indexer are the record \<open>indexer\<close>; the file system
    and the clock are the record \<open>world\<close>; both are passed in and returned.
  \<^item> The functions of the Node runtime and of the npm packages (\<^verbatim>\<open>path\<close>, \<^verbatim>\<open>crypto\<close>,
    the embedding model, the acorn parser) are the fields of the record \<open>env\<close>.
  \<^item> A thrown exception or a rejected promise is \<open>Inl\<close> of an \<open>error\<close>; the state that the
    code has mutated before the throw is returned with it.
  \<^item> An async function is a function of the state when it runs to its end before another
    request is served; \<^verbatim>\<open>indexProject\<close> is given in two parts as well, before and after
    its \<^verbatim>\<open>await\<close>, for the runs in which another request is served in between.
\<close>

subsection \<open>Strings\<close>

definition newline :: char where
  "newline = CHR 0x0A"

text \<open>The white space and line terminators that \<^verbatim>\<open>String.prototype.trim\<close> removes (below 256).\<close>

definition is_ws :: "char \<Rightarrow> bool" where
  "is_ws c = (c \<in> set [CHR 0x09, CHR 0x0A, CHR 0x0B, CHR 0x0C, CHR 0x0D, CHR 0x20, CHR 0xA0])"

definition trim :: "string \<Rightarrow> string" where
  "trim s = rev (dropWhile is_ws (rev (dropWhile is_ws s)))"

text \<open>\<^verbatim>\<open>s.split(sep)\<close> for a one-character separator: never empty, \<^verbatim>\<open>''.split(sep) = ['']\<close>.\<close>

fun split_on :: "char \<Rightarrow> string \<Rightarrow> string list" where
  "split_on sep [] = [[]]"
| "split_on sep (c # cs) =
     (if c = sep then [] # split_on sep cs
      else (case split_on sep cs of [] \<Rightarrow> [[c]] | l # ls \<Rightarrow> (c # l) # ls))"

text \<open>\<^verbatim>\<open>ls.join(sep)\<close>.\<close>

fun join :: "string \<Rightarrow> string list \<Rightarrow> string" where
  "join sep [] = []"
| "join sep [l] = l"
| "join sep (l # ls) = l @ sep @ join sep ls"

definition startsWith :: "string \<Rightarrow> string \<Rightarrow> bool" where
  "startsWith s p = (take (length p) s = p)"

definition endsWith :: "string \<Rightarrow> string \<Rightarrow> bool" where
  "endsWith s p = (length p \<le> length s \<and> drop (length s - length p) s = p)"

definition toLowerCase :: "string \<Rightarrow> string" where
  "toLowerCase s =
     map (\<lambda>c. if CHR ''A'' \<le> c \<and> c \<le> CHR ''Z'' then char_of (of_char c + (32::nat)) else c) s"

definition digit_char :: "nat \<Rightarrow> char" where
  "digit_char d = ''0123456789'' ! d"

text \<open>A non-negative integer in a template literal: its decimal digits.\<close>

fun show_nat :: "nat \<Rightarrow> string" where
  "show_nat n = (if n < 10 then [digit_char n] else show_nat (n div 10) @ [digit_char (n mod 10)])"

declare show_nat.simps [simp del]

text \<open>A possibly \<^verbatim>\<open>undefined\<close> string in a template literal.\<close>

fun template :: "string option \<Rightarrow> string" where
  "template None = ''undefined''"
| "template (Some s) = s"

subsection \<open>Data\<close>

text \<open>A chunk, as the chunkers build it (the field \<^verbatim>\<open>text\<close> is \<open>chunk_text\<close>).\<close>

record chunk =
  name :: string
  chunk_type :: string
  filepath :: string
  line_start :: nat
  line_end :: nat
  chunk_text :: string

type_synonym vector = "real list"

text \<open>An element of \<^verbatim>\<open>vectorStore.vectors\<close> (the field \<^verbatim>\<open>id\<close> is \<open>entry_id\<close>).\<close>

record entry =
  entry_id :: string
  embedding :: vector
  payload :: chunk

text \<open>
  A JavaScript number is an IEEE 754 double: a finite value, an infinity or NaN. A finite
  double is a real number; the two zeros are one value here. The elements of a stored
  vector are finite.
\<close>

datatype jsnum = Num real | PInf | NInf | NaN

text \<open>An element of the result of \<^verbatim>\<open>vectorSearch\<close>: the entry spread, with its score.\<close>

record scored =
  s_id :: string
  s_embedding :: vector
  s_payload :: chunk
  score :: jsnum

text \<open>The persisted cache document, as \<^verbatim>\<open>saveIndex\<close> writes it.\<close>

record cache =
  version :: int
  created :: string
  c_projectRoot :: string
  c_hashMap :: "string \<rightharpoonup> string"
  c_vectors :: "entry list"

datatype cache_read = NoFile | Unreadable | Parsed cache

text \<open>
  The module state of \<^verbatim>\<open>indexer.js\<close>: \<^verbatim>\<open>projectRoot\<close>, the mutable set
  \<^verbatim>\<open>DEFAULTS.includeExtensions\<close> (in insertion order) and the three fields of
  \<^verbatim>\<open>vectorStore\<close>.
\<close>

record indexer =
  projectRoot :: string
  includeExtensions :: "string list"
  vectors :: "entry list"
  hashMap :: "string \<rightharpoonup> string"
  isIndexed :: bool

text \<open>
  The file system and the clock. \<open>tree w r exts\<close> is what the directory walk of
  \<^verbatim>\<open>discoverFiles\<close> returns for a root and a set of extensions (with the fixed skip list and
  size limit); \<open>bytes\<close> gives the content of a readable file, \<open>dirs\<close> the entries of a
  directory; \<open>cacheAt\<close> is what reading and parsing the JSON cache at a path gives;
  \<open>cacheWritable\<close> tells whether writing the cache succeeds.
\<close>

record world =
  tree :: "string \<Rightarrow> string list \<Rightarrow> string list"
  bytes :: "string \<rightharpoonup> string"
  dirs :: "string \<rightharpoonup> string list"
  cacheAt :: "string \<Rightarrow> cache_read"
  cacheWritable :: bool
  now :: string

text \<open>
  The runtime: \<^verbatim>\<open>path.join\<close>, \<^verbatim>\<open>path.relative\<close>, \<^verbatim>\<open>path.basename\<close>, \<^verbatim>\<open>path.extname\<close>,
  the SHA-256 hex digest, the embedding model (\<open>None\<close> when it cannot be loaded; the model
  gives \<open>None\<close> on a text where inference throws), and the two structured chunkers, which
  no property below is about (the JavaScript one needs the acorn parser). The chunkers take
  the project root, which the source reads from the module variable. \<open>fl\<close> is the rounding
  of double arithmetic: the double that is nearest to an exact real result, which is an
  infinity when the result is too large and can be zero when it is too small.
\<close>

record env =
  path_join :: "string list \<Rightarrow> string"
  path_relative :: "string \<Rightarrow> string \<Rightarrow> string"
  path_basename :: "string \<Rightarrow> string"
  path_extname :: "string \<Rightarrow> string"
  sha256 :: "string \<Rightarrow> string"
  embedder :: "(string \<Rightarrow> vector option) option"
  chunkPython :: "string \<Rightarrow> string \<Rightarrow> string \<Rightarrow> chunk list"
  chunkJavaScript :: "string \<Rightarrow> string \<Rightarrow> string \<Rightarrow> chunk list"
  fl :: "real \<Rightarrow> jsnum"

datatype error =
  NotConfigured
  | FileNotFound string
  | NoSnapshots string
  | OutOfRange int
  | LiveNotFound string
  | Thrown

subsection \<open>The persisted cache\<close>

definition CACHE_VERSION :: int where
  "CACHE_VERSION = 1"

definition getCachePath :: "env \<Rightarrow> string \<Rightarrow> string" where
  "getCachePath e proot = path_join e [proot, ''.karp-inspector'', ''index-cache.json'']"

text \<open>\<^verbatim>\<open>saveIndex\<close>: nothing is written without a root or without vectors; a failed write is
  logged only.\<close>

definition saveIndex :: "env \<Rightarrow> world \<Rightarrow> indexer \<Rightarrow> world" where
  "saveIndex e w s =
     (if projectRoot s = [] \<or> vectors s = [] then w
      else if cacheWritable w then
        w\<lparr>cacheAt := (cacheAt w)(getCachePath e (projectRoot s) :=
             Parsed \<lparr>version = CACHE_VERSION, created = now w, c_projectRoot = projectRoot s,
                     c_hashMap = hashMap s, c_vectors = vectors s\<rparr>)\<rparr>
      else w)"

text \<open>
  \<^verbatim>\<open>loadIndex\<close>: the returned flag and the module state after the call. A file that cannot
  be read or parsed is \<open>Unreadable\<close>: the \<^verbatim>\<open>catch\<close> returns false. A parsed document is
  taken to have its five fields, as \<^verbatim>\<open>saveIndex\<close> writes them; a document with the
  current version and the configured root but without an array \<^verbatim>\<open>vectors\<close>, on which the
  source assigns the three fields and then fails in its log line, has no value in
  \<open>cache_read\<close>.
\<close>

definition loadIndex :: "env \<Rightarrow> world \<Rightarrow> indexer \<Rightarrow> bool \<times> indexer" where
  "loadIndex e w s =
     (if projectRoot s = [] then (False, s)
      else case cacheAt w (getCachePath e (projectRoot s)) of
        NoFile \<Rightarrow> (False, s)
      | Unreadable \<Rightarrow> (False, s)
      | Parsed c \<Rightarrow>
          if version c \<noteq> CACHE_VERSION then (False, s)
          else if c_projectRoot c \<noteq> projectRoot s then (False, s)
          else (True, s\<lparr>vectors := c_vectors c, hashMap := c_hashMap c, isIndexed := True\<rparr>))"

subsection \<open>Similarity search\<close>

text \<open>
  The operators \<^verbatim>\<open>+\<close>, \<^verbatim>\<open>*\<close>, \<^verbatim>\<open>/\<close> and \<^verbatim>\<open>Math.sqrt\<close> on doubles: on finite
  operands the exact result, rounded; on an infinity or NaN what IEEE 754 gives. A
  division by zero gives NaN for a zero dividend and else an infinity with the sign of the
  dividend: the divisor of \<^verbatim>\<open>cosineSimilarity\<close> is a product of two square roots, whose
  zero is the positive one.
\<close>

fun js_add :: "env \<Rightarrow> jsnum \<Rightarrow> jsnum \<Rightarrow> jsnum" where
  "js_add e (Num x) (Num y) = fl e (x + y)"
| "js_add e NaN _ = NaN"
| "js_add e _ NaN = NaN"
| "js_add e PInf NInf = NaN"
| "js_add e NInf PInf = NaN"
| "js_add e PInf _ = PInf"
| "js_add e _ PInf = PInf"
| "js_add e NInf _ = NInf"
| "js_add e _ NInf = NInf"

fun js_mul :: "env \<Rightarrow> jsnum \<Rightarrow> jsnum \<Rightarrow> jsnum" where
  "js_mul e (Num x) (Num y) = fl e (x * y)"
| "js_mul e NaN _ = NaN"
| "js_mul e _ NaN = NaN"
| "js_mul e (Num x) PInf = (if x = 0 then NaN else if 0 < x then PInf else NInf)"
| "js_mul e (Num x) NInf = (if x = 0 then NaN else if 0 < x then NInf else PInf)"
| "js_mul e PInf (Num y) = (if y = 0 then NaN else if 0 < y then PInf else NInf)"
| "js_mul e NInf (Num y) = (if y = 0 then NaN else if 0 < y then NInf else PInf)"
| "js_mul e PInf PInf = PInf"
| "js_mul e PInf NInf = NInf"
| "js_mul e NInf PInf = NInf"
| "js_mul e NInf NInf = PInf"

fun js_div :: "env \<Rightarrow> jsnum \<Rightarrow> jsnum \<Rightarrow> jsnum" where
  "js_div e (Num x) (Num y) =
     (if y = 0 then (if x = 0 then NaN else if 0 < x then PInf else NInf) else fl e (x / y))"
| "js_div e NaN _ = NaN"
| "js_div e _ NaN = NaN"
| "js_div e (Num x) PInf = Num 0"
| "js_div e (Num x) NInf = Num 0"
| "js_div e PInf (Num y) = (if 0 \<le> y then PInf else NInf)"
| "js_div e NInf (Num y) = (if 0 \<le> y then NInf else PInf)"
| "js_div e PInf PInf = NaN"
| "js_div e PInf NInf = NaN"
| "js_div e NInf PInf = NaN"
| "js_div e NInf NInf = NaN"

fun js_sqrt :: "env \<Rightarrow> jsnum \<Rightarrow> jsnum" where
  "js_sqrt e (Num x) = (if x < 0 then NaN else fl e (sqrt x))"
| "js_sqrt e PInf = PInf"
| "js_sqrt e NInf = NaN"
| "js_sqrt e NaN = NaN"

text \<open>
  The element \<^verbatim>\<open>v[i]\<close> as an operand: past the end of the array it is \<^verbatim>\<open>undefined\<close>,
  which arithmetic converts to NaN.
\<close>

definition operand :: "vector \<Rightarrow> nat \<Rightarrow> jsnum" where
  "operand v i = (if i < length v then Num (v ! i) else NaN)"

text \<open>
  The loop of \<^verbatim>\<open>cosineSimilarity\<close> over the indices of \<open>a\<close>, with the three sums
  \<^verbatim>\<open>dot\<close>, \<^verbatim>\<open>normA\<close> and \<^verbatim>\<open>normB\<close>, and the final division, which has no guard.
\<close>

function cos_loop :: "env \<Rightarrow> vector \<Rightarrow> vector \<Rightarrow> nat \<Rightarrow> jsnum \<times> jsnum \<times> jsnum \<Rightarrow> jsnum \<times> jsnum \<times> jsnum" where
  "cos_loop e a b i (dot, normA, normB) =
     (if i < length a then
        cos_loop e a b (i + 1)
          (js_add e dot (js_mul e (operand a i) (operand b i)),
           js_add e normA (js_mul e (operand a i) (operand a i)),
           js_add e normB (js_mul e (operand b i) (operand b i)))
      else (dot, normA, normB))"
  by pat_completeness auto
termination
  by (relation "measure (\<lambda>(e, a, b, i, acc). length a - i)") auto

declare cos_loop.simps [simp del]

definition cosineSimilarity :: "env \<Rightarrow> vector \<Rightarrow> vector \<Rightarrow> jsnum" where
  "cosineSimilarity e a b =
     (case cos_loop e a b 0 (Num 0, Num 0, Num 0) of
        (dot, normA, normB) \<Rightarrow> js_div e dot (js_mul e (js_sqrt e normA) (js_sqrt e normB)))"

text \<open>
  The difference \<^verbatim>\<open>b.score - a.score\<close> of the comparator. The sort reads its sign only,
  and rounding keeps the sign of a difference of two doubles (two different doubles never
  have a difference that rounds to zero), so the difference of two finite scores is kept
  exact here.
\<close>

fun js_sub :: "jsnum \<Rightarrow> jsnum \<Rightarrow> jsnum" where
  "js_sub (Num x) (Num y) = Num (x - y)"
| "js_sub NaN _ = NaN"
| "js_sub _ NaN = NaN"
| "js_sub PInf PInf = NaN"
| "js_sub NInf NInf = NaN"
| "js_sub PInf _ = PInf"
| "js_sub _ NInf = PInf"
| "js_sub NInf _ = NInf"
| "js_sub _ PInf = NInf"

text \<open>
  \<^verbatim>\<open>Array.prototype.sort\<close> with a comparator: a stable sort, in which a comparator result
  of NaN counts as 0. For a comparator that is a consistent ordering every stable sort gives
  this result; the model is insertion from the right. When the comparator returns NaN the
  order of the result depends on the sorting algorithm, and the merge sort of Node can give
  another order than this insertion (they agree on the three-element example below).
\<close>

fun js_positive :: "jsnum \<Rightarrow> bool" where
  "js_positive (Num v) = (0 < v)"
| "js_positive PInf = True"
| "js_positive NInf = False"
| "js_positive NaN = False"

fun insert_by :: "('a \<Rightarrow> 'a \<Rightarrow> jsnum) \<Rightarrow> 'a \<Rightarrow> 'a list \<Rightarrow> 'a list" where
  "insert_by cmp x [] = [x]"
| "insert_by cmp x (y # ys) =
     (if js_positive (cmp x y) then y # insert_by cmp x ys else x # y # ys)"

definition array_sort :: "('a \<Rightarrow> 'a \<Rightarrow> jsnum) \<Rightarrow> 'a list \<Rightarrow> 'a list" where
  "array_sort cmp xs = foldr (insert_by cmp) xs []"

text \<open>\<^verbatim>\<open>xs.slice(0, limit)\<close> for an integer limit: a negative limit counts from the end.\<close>

definition slice0 :: "'a list \<Rightarrow> int \<Rightarrow> 'a list" where
  "slice0 xs limit =
     (if limit < 0 then take (nat (int (length xs) + limit)) xs else take (nat limit) xs)"

definition with_score :: "env \<Rightarrow> vector \<Rightarrow> entry \<Rightarrow> scored" where
  "with_score e queryEmbedding v =
     \<lparr>s_id = entry_id v, s_embedding = embedding v, s_payload = payload v,
      score = cosineSimilarity e queryEmbedding (embedding v)\<rparr>"

definition candidates :: "indexer \<Rightarrow> (chunk \<Rightarrow> bool) option \<Rightarrow> entry list" where
  "candidates s filterFn =
     (case filterFn of None \<Rightarrow> vectors s | Some f \<Rightarrow> filter (\<lambda>v. f (payload v)) (vectors s))"

definition vectorSearch :: "env \<Rightarrow> indexer \<Rightarrow> vector \<Rightarrow> int \<Rightarrow> (chunk \<Rightarrow> bool) option \<Rightarrow> scored list" where
  "vectorSearch e s queryEmbedding limit filterFn =
     slice0 (array_sort (\<lambda>a b. js_sub (score b) (score a))
               (map (with_score e queryEmbedding) (candidates s filterFn))) limit"

subsection \<open>Embeddings and hashes\<close>

text \<open>\<^verbatim>\<open>generateEmbeddings\<close>: the vectors in the order of the texts, or a throw. The batches of
  16 only pace the log.\<close>

definition generateEmbeddings :: "env \<Rightarrow> string list \<Rightarrow> vector list option" where
  "generateEmbeddings e texts =
     (case embedder e of None \<Rightarrow> None | Some model \<Rightarrow> those (map model texts))"

definition discoverFiles :: "world \<Rightarrow> string \<Rightarrow> string list \<Rightarrow> string list" where
  "discoverFiles w rootDir includeExt = tree w rootDir includeExt"

text \<open>\<^verbatim>\<open>computeHash\<close> throws on a file that cannot be read.\<close>

definition computeHash :: "env \<Rightarrow> world \<Rightarrow> string \<Rightarrow> string option" where
  "computeHash e w fp = map_option (sha256 e) (bytes w fp)"

subsection \<open>Chunking\<close>

definition maxChunkChars :: nat where
  "maxChunkChars = 1500"

text \<open>The loop of \<^verbatim>\<open>chunkFixedSize\<close>: \<open>i\<close>, \<open>currentText\<close>, \<open>chunkStart\<close> and \<open>chunks\<close> are
  its variables.\<close>

function fixed_loop ::
  "string \<Rightarrow> string \<Rightarrow> string list \<Rightarrow> nat \<Rightarrow> string \<Rightarrow> nat \<Rightarrow> chunk list \<Rightarrow> chunk list" where
  "fixed_loop base relPath lines i currentText chunkStart chunks =
     (if i < length lines then
        (let currentText' = currentText @ lines ! i @ [newline] in
         if maxChunkChars \<le> length currentText' \<or> i = length lines - 1 then
           fixed_loop base relPath lines (i + 1) [] (i + 2)
             (chunks @ [\<lparr>name = base @ '':L'' @ show_nat chunkStart @ ''-'' @ show_nat (i + 1),
                         chunk_type = ''file_chunk'', filepath = relPath,
                         line_start = chunkStart, line_end = i + 1,
                         chunk_text = trim currentText'\<rparr>])
         else fixed_loop base relPath lines (i + 1) currentText' chunkStart chunks)
      else chunks)"
  by pat_completeness auto
termination
  by (relation "measure (\<lambda>(base, relPath, lines, i, cur, start, chunks). length lines - i)") auto

declare fixed_loop.simps [simp del]

definition chunkFixedSize :: "env \<Rightarrow> string \<Rightarrow> string \<Rightarrow> string \<Rightarrow> chunk list" where
  "chunkFixedSize e proot fp source =
     (let relPath = path_relative e proot fp;
          lines = split_on newline source
      in if trim source = [] then []
         else fixed_loop (path_basename e fp) relPath lines 0 [] 1 [])"

definition chunkFile :: "env \<Rightarrow> string \<Rightarrow> string \<Rightarrow> string \<Rightarrow> chunk list" where
  "chunkFile e proot fp source =
     (let ext = toLowerCase (path_extname e fp) in
      if ext = ''.py'' then chunkPython e proot fp source
      else if ext \<in> set [''.js'', ''.jsx'', ''.ts'', ''.tsx''] then chunkJavaScript e proot fp source
      else chunkFixedSize e proot fp source)"

subsection \<open>Snapshots\<close>

definition saveSnapshot :: "env \<Rightarrow> string \<Rightarrow> string \<Rightarrow> world \<Rightarrow> world \<times> string" where
  "saveSnapshot e proot fp w =
     (let snapshotDir = path_join e [proot, ''.karp-inspector'', ''snapshots'', fp];
          timestamp = map (\<lambda>c. if c = CHR '':'' \<or> c = CHR ''.'' then CHR ''-'' else c) (now w);
          fname = timestamp @ ''.snapshot'';
          snapshotPath = path_join e [snapshotDir, fname];
          fullPath = path_join e [proot, fp];
          present = (case dirs w snapshotDir of None \<Rightarrow> [] | Some ns \<Rightarrow> ns)
      in case bytes w fullPath of
           None \<Rightarrow> (w\<lparr>dirs := (dirs w)(snapshotDir \<mapsto> present)\<rparr>, snapshotPath)
         | Some content \<Rightarrow>
             (w\<lparr>dirs := (dirs w)(snapshotDir \<mapsto> List.insert fname present),
                bytes := (bytes w)(snapshotPath \<mapsto> content)\<rparr>, snapshotPath))"

subsection \<open>The public operations of the indexer\<close>



definition initial_indexer :: indexer where
  "initial_indexer =
     \<lparr>projectRoot = [],
      includeExtensions = [''.py'', ''.js'', ''.ts'', ''.html'', ''.css'', ''.md'', ''.txt''],
      vectors = [], hashMap = Map.empty, isIndexed = False\<rparr>"


text \<open>The variables of the file loop of \<^verbatim>\<open>indexProject\<close>: the hash map it mutates,
  \<^verbatim>\<open>allChunks\<close> and \<^verbatim>\<open>skipped\<close>.\<close>

record loop_state =
  l_hashMap :: "string \<rightharpoonup> string"
  allChunks :: "chunk list"
  l_skipped :: nat

text \<open>
  The file loop. \<^verbatim>\<open>computeHash\<close> is outside the \<^verbatim>\<open>try\<close>: when it throws, the run ends
  there (\<open>False\<close>) with what the loop has written. A throw inside the \<^verbatim>\<open>try\<close> (the file
  cannot be read) counts the file as skipped.
\<close>

fun index_loop :: "env \<Rightarrow> world \<Rightarrow> string \<Rightarrow> bool \<Rightarrow> string list \<Rightarrow> loop_state \<Rightarrow> loop_state \<times> bool" where
  "index_loop e w proot force [] st = (st, True)"
| "index_loop e w proot force (fp # fps) st =
     (case computeHash e w fp of
        None \<Rightarrow> (st, False)
      | Some hash \<Rightarrow>
          (let relPath = path_relative e proot fp in
           if \<not> force \<and> l_hashMap st relPath = Some hash then
             index_loop e w proot force fps (st\<lparr>l_skipped := l_skipped st + 1\<rparr>)
           else
             (case bytes w fp of
                None \<Rightarrow> index_loop e w proot force fps (st\<lparr>l_skipped := l_skipped st + 1\<rparr>)
              | Some source \<Rightarrow>
                  index_loop e w proot force fps
                    (st\<lparr>allChunks := allChunks st @ chunkFile e proot fp source,
                        l_hashMap := (l_hashMap st)(relPath \<mapsto> hash)\<rparr>))))"

definition new_entry :: "chunk \<Rightarrow> vector \<Rightarrow> entry" where
  "new_entry c v =
     \<lparr>entry_id = filepath c @ '':'' @ show_nat (line_start c), embedding = v, payload = c\<rparr>"

definition embed_text :: "chunk \<Rightarrow> string" where
  "embed_text c = name c @ [newline] @ chunk_text c"

text \<open>The result object of \<^verbatim>\<open>indexProject\<close>, without the per-extension counts, the duration
  and the banner.\<close>

record index_result =
  status :: string
  total_files :: nat
  new_chunks :: nat
  total_chunks :: nat
  skipped :: nat

definition indexProject ::
  "env \<Rightarrow> bool \<Rightarrow> world \<times> indexer \<Rightarrow> (world \<times> indexer) \<times> (error + index_result)" where
  "indexProject e force ws =
     (case ws of (w, s) \<Rightarrow>
      if projectRoot s = [] then ((w, s), Inl NotConfigured)
      else
        (let files = discoverFiles w (projectRoot s) (includeExtensions s);
             s1 = (if force then s\<lparr>vectors := [], hashMap := Map.empty\<rparr> else s);
             (st, completed) = index_loop e w (projectRoot s) force files
                 \<lparr>l_hashMap = hashMap s1, allChunks = [], l_skipped = 0\<rparr>;
             s2 = s1\<lparr>hashMap := l_hashMap st\<rparr>
         in if \<not> completed then ((w, s2), Inl Thrown)
            else
              (case (if allChunks st = [] then Some s2
                     else (case generateEmbeddings e (map embed_text (allChunks st)) of
                             None \<Rightarrow> None
                           | Some embeddings \<Rightarrow>
                               Some (s2\<lparr>vectors :=
                                  filter (\<lambda>v. filepath (payload v) \<notin> set (map filepath (allChunks st)))
                                    (vectors s2)
                                  @ map2 new_entry (allChunks st) embeddings\<rparr>))) of
                 None \<Rightarrow> ((w, s2), Inl Thrown)
               | Some s3 \<Rightarrow>
                   (let s4 = s3\<lparr>isIndexed := True\<rparr>;
                        w' = saveIndex e w s4
                    in ((w', s4),
                        Inr \<lparr>status = (if allChunks st = [] \<and> vectors s4 \<noteq> []
                                        then ''up_to_date'' else ''indexed''),
                             total_files = length files,
                             new_chunks = length (allChunks st),
                             total_chunks = length (vectors s4),
                             skipped = l_skipped st\<rparr>)))))"

record reindex_result =
  r_file :: string
  r_chunks :: nat
  r_total_chunks :: nat
  r_snapshot :: string

definition reindexFile ::
  "env \<Rightarrow> string \<Rightarrow> world \<times> indexer \<Rightarrow> (world \<times> indexer) \<times> (error + reindex_result)" where
  "reindexFile e fp ws =
     (case ws of (w, s) \<Rightarrow>
      if projectRoot s = [] then ((w, s), Inl NotConfigured)
      else
        (let fullPath = path_join e [projectRoot s, fp] in
         if bytes w fullPath = None then ((w, s), Inl (FileNotFound fp))
         else
           (let (w1, snapshotPath) = saveSnapshot e (projectRoot s) fp w;
                s1 = s\<lparr>vectors := filter (\<lambda>v. filepath (payload v) \<noteq> fp) (vectors s)\<rparr>
            in case bytes w1 fullPath of
                 None \<Rightarrow> ((w1, s1), Inl Thrown)
               | Some source \<Rightarrow>
                   (let cs = chunkFile e (projectRoot s) fullPath source in
                    case generateEmbeddings e (map embed_text cs) of
                      None \<Rightarrow> ((w1, s1), Inl Thrown)
                    | Some embeddings \<Rightarrow>
                        (let s2 = s1\<lparr>vectors := vectors s1 @ map2 new_entry cs embeddings\<rparr> in
                         case computeHash e w1 fullPath of
                           None \<Rightarrow> ((w1, s2), Inl Thrown)
                         | Some h \<Rightarrow>
                             (let s3 = s2\<lparr>hashMap := (hashMap s2)(fp \<mapsto> h)\<rparr>;
                                  w2 = saveIndex e w1 s3
                              in ((w2, s3),
                                  Inr \<lparr>r_file = fp, r_chunks = length cs,
                                       r_total_chunks = length (vectors s3),
                                       r_snapshot = snapshotPath\<rparr>)))))))"

subsection \<open>An indexing call that is suspended\<close>

text \<open>
  \<^verbatim>\<open>indexProject\<close> is an async function. It runs without interruption up to its
  \<^verbatim>\<open>await\<close> of \<^verbatim>\<open>generateEmbeddings\<close>, which it reaches when there are chunks to embed;
  the rest runs when the embeddings have arrived, and the event loop can serve other
  requests in between (\<^verbatim>\<open>index.js\<close> dispatches every input line as it comes, without a
  queue). \<open>indexProject_start\<close> is the part before the \<^verbatim>\<open>await\<close>: it gives the outcome of
  the call when the call ends without waiting, and else the local variables that the rest
  reads (\<open>pending\<close>). \<open>indexProject_resume\<close> is the rest, run on the module state and the
  file system of the moment at which the call goes on.
\<close>

record pending =
  p_files :: "string list"
  p_allChunks :: "chunk list"
  p_skipped :: nat

definition indexProject_start ::
  "env \<Rightarrow> bool \<Rightarrow> world \<times> indexer \<Rightarrow> (world \<times> indexer) \<times> ((error + index_result) + pending)" where
  "indexProject_start e force ws =
     (case ws of (w, s) \<Rightarrow>
      if projectRoot s = [] then ((w, s), Inl (Inl NotConfigured))
      else
        (let files = discoverFiles w (projectRoot s) (includeExtensions s);
             s1 = (if force then s\<lparr>vectors := [], hashMap := Map.empty\<rparr> else s);
             (st, completed) = index_loop e w (projectRoot s) force files
                 \<lparr>l_hashMap = hashMap s1, allChunks = [], l_skipped = 0\<rparr>;
             s2 = s1\<lparr>hashMap := l_hashMap st\<rparr>
         in if \<not> completed then ((w, s2), Inl (Inl Thrown))
            else if allChunks st = [] then
              (let s4 = s2\<lparr>isIndexed := True\<rparr>;
                   w' = saveIndex e w s4
               in ((w', s4),
                   Inl (Inr \<lparr>status = (if allChunks st = [] \<and> vectors s4 \<noteq> []
                                             then ''up_to_date'' else ''indexed''),
                             total_files = length files,
                             new_chunks = length (allChunks st),
                             total_chunks = length (vectors s4),
                             skipped = l_skipped st\<rparr>)))
            else ((w, s2),
                  Inr \<lparr>p_files = files, p_allChunks = allChunks st, p_skipped = l_skipped st\<rparr>)))"

definition indexProject_resume ::
  "env \<Rightarrow> pending \<Rightarrow> world \<times> indexer \<Rightarrow> (world \<times> indexer) \<times> (error + index_result)" where
  "indexProject_resume e p ws =
     (case ws of (w, s) \<Rightarrow>
      case generateEmbeddings e (map embed_text (p_allChunks p)) of
        None \<Rightarrow> ((w, s), Inl Thrown)
      | Some embeddings \<Rightarrow>
          (let s3 = s\<lparr>vectors :=
                      filter (\<lambda>v. filepath (payload v) \<notin> set (map filepath (p_allChunks p)))
                        (vectors s)
                      @ map2 new_entry (p_allChunks p) embeddings\<rparr>;
               s4 = s3\<lparr>isIndexed := True\<rparr>;
               w' = saveIndex e w s4
           in ((w', s4),
               Inr \<lparr>status = (if p_allChunks p = [] \<and> vectors s4 \<noteq> []
                               then ''up_to_date'' else ''indexed''),
                    total_files = length (p_files p),
                    new_chunks = length (p_allChunks p),
                    total_chunks = length (vectors s4),
                    skipped = p_skipped p\<rparr>)))"

subsection \<open>The diff of the searcher\<close>

text \<open>The loop of \<^verbatim>\<open>simpleDiff\<close>; a line past the end of its side is \<^verbatim>\<open>undefined\<close>
  (\<open>None\<close>).\<close>

function diff_loop :: "string list \<Rightarrow> string list \<Rightarrow> nat \<Rightarrow> nat \<Rightarrow> string list \<Rightarrow> string list" where
  "diff_loop oldLines newLines maxLen i result =
     (if i < maxLen then
        (let oldLine = (if i < length oldLines then Some (oldLines ! i) else None);
             newLine = (if i < length newLines then Some (newLines ! i) else None)
         in if oldLine = newLine then diff_loop oldLines newLines maxLen (i + 1) result
            else if oldLine \<noteq> None \<and> newLine \<noteq> None \<and> oldLine \<noteq> newLine then
              diff_loop oldLines newLines maxLen (i + 1)
                (result @ [''-'' @ template oldLine, ''+'' @ template newLine])
            else if oldLine = None then
              diff_loop oldLines newLines maxLen (i + 1) (result @ [''+'' @ template newLine])
            else
              diff_loop oldLines newLines maxLen (i + 1) (result @ [''-'' @ template oldLine]))
      else result)"
  by pat_completeness auto
termination
  by (relation "measure (\<lambda>(oldLines, newLines, maxLen, i, result). maxLen - i)") auto

declare diff_loop.simps [simp del]

definition simpleDiff :: "string list \<Rightarrow> string list \<Rightarrow> string \<Rightarrow> string \<Rightarrow> string list" where
  "simpleDiff oldLines newLines oldLabel newLabel =
     diff_loop oldLines newLines (max (length oldLines) (length newLines)) 0
       [''--- '' @ oldLabel, ''+++ '' @ newLabel]"

definition count_additions :: "string list \<Rightarrow> nat" where
  "count_additions diffLines =
     length (filter (\<lambda>l. startsWith l ''+'' \<and> \<not> startsWith l ''+++'') diffLines)"

definition count_deletions :: "string list \<Rightarrow> nat" where
  "count_deletions diffLines =
     length (filter (\<lambda>l. startsWith l ''-'' \<and> \<not> startsWith l ''---'') diffLines)"

record diff_result =
  d_file :: string
  additions :: nat
  deletions :: nat
  diff_text :: string

text \<open>The tail of \<^verbatim>\<open>fileDiff\<close>, from the two line arrays on.\<close>

definition diff_report :: "string \<Rightarrow> string list \<Rightarrow> string list \<Rightarrow> string \<Rightarrow> string \<Rightarrow> diff_result" where
  "diff_report fp oldContent newContent oldLabel newLabel =
     (let diffLines = simpleDiff oldContent newContent oldLabel newLabel;
          joined = join [newline] diffLines
      in \<lparr>d_file = fp, additions = count_additions diffLines,
          deletions = count_deletions diffLines,
          diff_text = (if joined = [] then ''(no changes)'' else joined)\<rparr>)"

text \<open>
  \<^verbatim>\<open>fileDiff\<close>, with the proot that the searcher was configured with. The snapshot names
  are sorted as strings and reversed. An index below the range of the array reads
  \<^verbatim>\<open>undefined\<close>, on which \<^verbatim>\<open>path.join\<close> throws.
\<close>

definition fileDiff :: "env \<Rightarrow> world \<Rightarrow> string \<Rightarrow> string \<Rightarrow> int \<Rightarrow> int \<Rightarrow> error + diff_result" where
  "fileDiff e w proot fp oldIndex newIndex =
     (if proot = [] then Inl NotConfigured
      else
        (let snapshotDir = path_join e [proot, ''.karp-inspector'', ''snapshots'', fp] in
         case dirs w snapshotDir of
           None \<Rightarrow> Inl (NoSnapshots fp)
         | Some names \<Rightarrow>
             (let snapshots = rev (sort (filter (\<lambda>f. endsWith f ''.snapshot'') names)) in
              if snapshots = [] then Inl (NoSnapshots fp)
              else if int (length snapshots) \<le> oldIndex then Inl (OutOfRange oldIndex)
              else if oldIndex < 0 then Inl Thrown
              else
                (case bytes w (path_join e [snapshotDir, snapshots ! nat oldIndex]) of
                   None \<Rightarrow> Inl Thrown
                 | Some oldRaw \<Rightarrow>
                     (if newIndex = - 1 then
                        (case bytes w (path_join e [proot, fp]) of
                           None \<Rightarrow> Inl (LiveNotFound fp)
                         | Some newRaw \<Rightarrow>
                             Inr (diff_report fp (split_on newline oldRaw) (split_on newline newRaw)
                                    (snapshots ! nat oldIndex) (fp @ '' (live)'')))
                      else if int (length snapshots) \<le> newIndex then Inl (OutOfRange newIndex)
                      else if newIndex < 0 then Inl Thrown
                      else
                        (case bytes w (path_join e [snapshotDir, snapshots ! nat newIndex]) of
                           None \<Rightarrow> Inl Thrown
                         | Some newRaw \<Rightarrow>
                             Inr (diff_report fp (split_on newline oldRaw) (split_on newline newRaw)
                                    (snapshots ! nat oldIndex) (snapshots ! nat newIndex))))))))"

subsection \<open>Notions used to state the properties\<close>

text \<open>
  What the specification says the diff emits at one line index: a removal and an addition
  when both sides have a line there and the lines differ, only the addition or only the
  removal when one side has no line there.
\<close>

definition diff_at :: "string list \<Rightarrow> string list \<Rightarrow> nat \<Rightarrow> string list" where
  "diff_at oldLines newLines i =
     (if i < length oldLines \<and> i < length newLines then
        (if oldLines ! i = newLines ! i then []
         else [''-'' @ oldLines ! i, ''+'' @ newLines ! i])
      else if i < length newLines then [''+'' @ newLines ! i]
      else if i < length oldLines then [''-'' @ oldLines ! i]
      else [])"

text \<open>
  A concrete runtime and file system on which the model is evaluated in the examples:
  POSIX paths that are already normalised, a hash and an embedding model that are given,
  no structured chunks, and an arithmetic that rounds nothing (as double arithmetic does on
  the small integers of the examples).
\<close>

definition posix_relative :: "string \<Rightarrow> string \<Rightarrow> string" where
  "posix_relative base p =
     (if startsWith p (base @ ''/'') then drop (length base + 1) p else p)"

definition posix_basename :: "string \<Rightarrow> string" where
  "posix_basename p = last (split_on (CHR ''/'') p)"

definition posix_extname :: "string \<Rightarrow> string" where
  "posix_extname p =
     (let parts = split_on (CHR ''.'') (posix_basename p) in
      if length parts < 2 \<or> (length parts = 2 \<and> hd parts = []) then []
      else ''.'' @ last parts)"

definition example_env :: "(string \<Rightarrow> string) \<Rightarrow> (string \<Rightarrow> vector option) option \<Rightarrow> env" where
  "example_env h m =
     \<lparr>path_join = join ''/'', path_relative = posix_relative,
      path_basename = posix_basename, path_extname = posix_extname,
      sha256 = h, embedder = m,
      chunkPython = (\<lambda>r fp src. []), chunkJavaScript = (\<lambda>r fp src. []), fl = Num\<rparr>"

definition example_world :: "(string \<times> string) list \<Rightarrow> (string \<Rightarrow> cache_read) \<Rightarrow> world" where
  "example_world files caches =
     \<lparr>tree = (\<lambda>r exts. map fst files), bytes = map_of files, dirs = Map.empty,
      cacheAt = caches, cacheWritable = True, now = ''2026-02-21T10:00:00.000Z''\<rparr>"

definition example_cache :: "string \<Rightarrow> cache" where
  "example_cache r =
     \<lparr>version = 1, created = ''2026-02-20T09:00:00.000Z'', c_projectRoot = r,
      c_hashMap = Map.empty, c_vectors = []\<rparr>"









text \<open>
  A file system with two snapshots of \<^verbatim>\<open>a.txt\<close>: the older holds the lines x, y, the
  newer the lines x, z.
\<close>

definition diff_world :: world where
  "diff_world =
     \<lparr>tree = (\<lambda>r exts. [''/p/a.txt'']),
      bytes = [''/p/a.txt'' \<mapsto> ''x'' @ [newline] @ ''z'',
               ''/p/.karp-inspector/snapshots/a.txt/2026-02-20T09-00-00-000Z.snapshot''
                 \<mapsto> ''x'' @ [newline] @ ''y'',
               ''/p/.karp-inspector/snapshots/a.txt/2026-02-21T10-00-00-000Z.snapshot''
                 \<mapsto> ''x'' @ [newline] @ ''z''],
      dirs = [''/p/.karp-inspector/snapshots/a.txt'' \<mapsto>
                [''2026-02-20T09-00-00-000Z.snapshot'', ''2026-02-21T10-00-00-000Z.snapshot'']],
      cacheAt = (\<lambda>p. NoFile), cacheWritable = True, now = ''2026-02-21T10:00:00.000Z''\<rparr>"




text \<open>
  The order of scores that JavaScript's \<^verbatim>\<open>>=\<close> gives (false when a side is NaN), a
  result list in non-increasing score order, and a key that is smaller for a greater score.
\<close>

fun js_ge :: "jsnum \<Rightarrow> jsnum \<Rightarrow> bool" where
  "js_ge (Num x) (Num y) = (y \<le> x)"
| "js_ge NaN _ = False"
| "js_ge _ NaN = False"
| "js_ge PInf _ = True"
| "js_ge _ NInf = True"
| "js_ge _ _ = False"

definition non_increasing :: "scored list \<Rightarrow> bool" where
  "non_increasing xs = sorted_wrt (\<lambda>a b. js_ge (score a) (score b)) xs"

fun score_rank :: "jsnum \<Rightarrow> int \<times> real" where
  "score_rank PInf = (0, 0)"
| "score_rank (Num x) = (1, - x)"
| "score_rank NInf = (2, 0)"
| "score_rank NaN = (3, 0)"

text \<open>A vector store for the examples, with one one-line chunk per file.\<close>

definition example_chunk :: "string \<Rightarrow> chunk" where
  "example_chunk p =
     \<lparr>name = p @ '':L1-1'', chunk_type = ''file_chunk'', filepath = p,
      line_start = 1, line_end = 1, chunk_text = ''hello''\<rparr>"

definition example_store :: "(string \<times> vector) list \<Rightarrow> indexer" where
  "example_store es =
     initial_indexer\<lparr>projectRoot := ''/p'',
       vectors := map (\<lambda>(p, v). \<lparr>entry_id = p @ '':1'', embedding = v, payload = example_chunk p\<rparr>) es,
       isIndexed := True\<rparr>"

abbreviation (input) by_score :: "scored \<Rightarrow> scored \<Rightarrow> jsnum" where
  "by_score \<equiv> (\<lambda>a b. js_sub (score b) (score a))"

text \<open>
  Notions for the fixed-size chunker. \<open>win ls a b\<close> is the text that the loop accumulates
  from the lines with indices \<open>a\<close> up to \<open>b\<close> (exclusive), each followed by a newline;
  \<open>fixed_chunk\<close> is the chunk that covers the lines \<open>st\<close> to \<open>en\<close> (counted from 1);
  \<open>windows_from\<close> describes a list of such chunks that starts at line \<open>st\<close>, in which each
  window is closed at the first line where it reaches the budget, or at the last line.
\<close>

definition win :: "string list \<Rightarrow> nat \<Rightarrow> nat \<Rightarrow> string" where
  "win ls a b = concat (map (\<lambda>l. l @ [newline]) (take (b - a) (drop a ls)))"

definition fixed_chunk :: "string \<Rightarrow> string \<Rightarrow> string list \<Rightarrow> nat \<Rightarrow> nat \<Rightarrow> chunk" where
  "fixed_chunk base rel ls st en =
     \<lparr>name = base @ '':L'' @ show_nat st @ ''-'' @ show_nat en,
      chunk_type = ''file_chunk'', filepath = rel,
      line_start = st, line_end = en, chunk_text = trim (win ls (st - 1) en)\<rparr>"

fun windows_from :: "string \<Rightarrow> string \<Rightarrow> string list \<Rightarrow> nat \<Rightarrow> chunk list \<Rightarrow> bool" where
  "windows_from base rel ls st [] = (st = length ls + 1)"
| "windows_from base rel ls st (c # cs) =
     (st \<le> line_end c \<and> line_end c \<le> length ls \<and>
      c = fixed_chunk base rel ls st (line_end c) \<and>
      length (win ls (st - 1) (line_end c - 1)) < maxChunkChars \<and>
      (maxChunkChars \<le> length (win ls (st - 1) (line_end c)) \<or> line_end c = length ls) \<and>
      windows_from base rel ls (line_end c + 1) cs)"

text \<open>
  A line that is not empty and neither begins nor ends with white space, and the file of the
  repository's test \<^verbatim>\<open>multiple chunks for large files\<close>: 200 lines
  \<^verbatim>\<open>Line i: Some content\<close>, joined by newlines.
\<close>

definition clean_line :: "string \<Rightarrow> bool" where
  "clean_line l = (l \<noteq> [] \<and> \<not> is_ws (hd l) \<and> \<not> is_ws (last l))"

definition test_line :: "nat \<Rightarrow> string" where
  "test_line i = ''Line '' @ show_nat i @ '': Some content''"

definition test_lines :: "string list" where
  "test_lines = map test_line [0..<200]"

definition test_source :: string where
  "test_source = join [newline] test_lines"


text \<open>
  The running example of the indexing properties: a project \<^verbatim>\<open>/p\<close> with the one file
  \<^verbatim>\<open>a.txt\<close>, which holds \<^verbatim>\<open>hello\<close> (\<open>hello_world\<close>) or a single blank
  (\<open>blank_world\<close>); an embedding model that always answers; the indexer configured for
  \<^verbatim>\<open>/p\<close> with an empty store (\<open>example_root\<close>); and the store that indexing
  \<open>hello_world\<close> produces (\<open>indexed_hello\<close>, lemma \<open>example_first_run\<close>).
\<close>

definition example_embedder :: "string \<Rightarrow> vector option" where
  "example_embedder t = Some [1, 0]"

definition example_root :: indexer where
  "example_root = initial_indexer\<lparr>projectRoot := ''/p''\<rparr>"

definition hello_world :: world where
  "hello_world = example_world [(''/p/a.txt'', ''hello'')] (\<lambda>p. NoFile)"

definition blank_world :: world where
  "blank_world = example_world [(''/p/a.txt'', '' '')] (\<lambda>p. NoFile)"


definition hello_chunk :: chunk where
  "hello_chunk = fixed_chunk ''a.txt'' ''a.txt'' [''hello''] 1 1"

definition indexed_hello :: "(string \<Rightarrow> string) \<Rightarrow> indexer" where
  "indexed_hello h =
     example_root\<lparr>vectors := [new_entry hello_chunk [1, 0]],
                  hashMap := [''a.txt'' \<mapsto> h ''hello''], isIndexed := True\<rparr>"

section \<open>Properties\<close>

subsection \<open>Loading the cache\<close>


text \<open>
  Claim C6. When the cache document that \<open>loadIndex\<close> reads has a version other than
  \<open>CACHE_VERSION\<close>, or a stored project root other than the configured one, \<open>loadIndex\<close>
  returns false and the module state after the call is the state before it: no field of
  the vector store has been written.
\<close>

theorem loadIndex_rejects_mismatch:
  assumes "cacheAt w (getCachePath e (projectRoot s)) = Parsed c"
    and "version c \<noteq> CACHE_VERSION \<or> c_projectRoot c \<noteq> projectRoot s"
  shows "loadIndex e w s = (False, s)"
  using assms by (auto simp: loadIndex_def)

theorem loadIndex_rejects_mismatch_witness:
  "cacheAt (example_world [] (\<lambda>p. Parsed (example_cache ''/other'')))
      (getCachePath (example_env id None) (projectRoot (initial_indexer\<lparr>projectRoot := ''/p''\<rparr>)))
     = Parsed (example_cache ''/other'') \<and>
   c_projectRoot (example_cache ''/other'') \<noteq> projectRoot (initial_indexer\<lparr>projectRoot := ''/p''\<rparr>) \<and>
   loadIndex (example_env id None) (example_world [] (\<lambda>p. Parsed (example_cache ''/other'')))
     (initial_indexer\<lparr>projectRoot := ''/p''\<rparr>) = (False, initial_indexer\<lparr>projectRoot := ''/p''\<rparr>)"
proof -
  have h1: "cacheAt (example_world [] (\<lambda>p. Parsed (example_cache ''/other'')))
      (getCachePath (example_env id None) (projectRoot (initial_indexer\<lparr>projectRoot := ''/p''\<rparr>)))
     = Parsed (example_cache ''/other'')"
    by (simp add: example_world_def)
  have h2: "c_projectRoot (example_cache ''/other'') \<noteq> projectRoot (initial_indexer\<lparr>projectRoot := ''/p''\<rparr>)"
    by (simp add: example_cache_def initial_indexer_def)
  show ?thesis using h1 h2 loadIndex_rejects_mismatch[OF h1 disjI2[OF h2]] by simp
qed

subsection \<open>The diff\<close>

lemma diff_loop_step:
  assumes "i < m"
  shows "diff_loop old new m i res = diff_loop old new m (i + 1) (res @ diff_at old new i)"
  by (subst diff_loop.simps) (simp add: assms diff_at_def Let_def)

lemma diff_loop_done: "\<not> i < m \<Longrightarrow> diff_loop old new m i res = res"
  by (subst diff_loop.simps) simp

lemma diff_loop_eq:
  "diff_loop old new m i res = res @ concat (map (diff_at old new) [i..<m])"
proof (induction "m - i" arbitrary: i res)
  case 0
  then show ?case by (simp add: diff_loop_done)
next
  case (Suc n)
  then have lt: "i < m" and n: "n = m - (i + 1)" by simp_all
  have "diff_loop old new m i res = diff_loop old new m (i + 1) (res @ diff_at old new i)"
    by (rule diff_loop_step[OF lt])
  also have "\<dots> = (res @ diff_at old new i) @ concat (map (diff_at old new) [i + 1..<m])"
    by (rule Suc.hyps(1)[OF n])
  finally show ?case using lt by (simp add: upt_conv_Cons)
qed

lemma simpleDiff_xy_xz:
  "simpleDiff [''x'', ''y''] [''x'', ''z''] a b = [''--- '' @ a, ''+++ '' @ b, ''-y'', ''+z'']"
  by (simp add: simpleDiff_def diff_loop_eq diff_at_def upt_conv_Cons)

lemma example_join: "path_join (example_env h m) = join ''/''"
  by (simp add: example_env_def)

lemma snapshot_order:
  "rev (sort (filter (\<lambda>f. endsWith f ''.snapshot'')
     [''2026-02-20T09-00-00-000Z.snapshot'', ''2026-02-21T10-00-00-000Z.snapshot'']))
   = [''2026-02-21T10-00-00-000Z.snapshot'', ''2026-02-20T09-00-00-000Z.snapshot'']"
  by (simp add: endsWith_def less_eq_char_def less_char_def)

lemma fileDiff_xy_xz:
  "fileDiff (example_env h m) diff_world ''/p'' ''a.txt'' 1 0 =
     Inr \<lparr>d_file = ''a.txt'', additions = 1, deletions = 1,
          diff_text = join [newline]
            [''--- 2026-02-20T09-00-00-000Z.snapshot'', ''+++ 2026-02-21T10-00-00-000Z.snapshot'',
             ''-y'', ''+z'']\<rparr>"
  by (simp add: fileDiff_def example_join diff_world_def snapshot_order diff_report_def
      simpleDiff_xy_xz count_additions_def count_deletions_def startsWith_def endsWith_def newline_def
      less_eq_char_def less_char_def Let_def)

text \<open>
  Claim C9. The output of \<open>simpleDiff\<close> is the two header lines followed, for each line
  index in order, by what \<open>diff_at\<close> gives there: a removal of the old line and an addition
  of the new line where both exist and differ, only the addition or only the removal where
  one side has no line. For old = [x, y] and new = [x, z] the diff lines are the removal of
  y and the addition of z, and \<open>fileDiff\<close> counts one deletion and one addition, also
  when it reads the two sides from the snapshots of \<open>diff_world\<close>.
\<close>

theorem simpleDiff_position_aligned:
  "simpleDiff oldLines newLines oldLabel newLabel =
     [''--- '' @ oldLabel, ''+++ '' @ newLabel]
     @ concat (map (diff_at oldLines newLines) [0..<max (length oldLines) (length newLines)]) \<and>
   simpleDiff [''x'', ''y''] [''x'', ''z''] oldLabel newLabel =
     [''--- '' @ oldLabel, ''+++ '' @ newLabel, ''-y'', ''+z''] \<and>
   deletions (diff_report fp [''x'', ''y''] [''x'', ''z''] oldLabel newLabel) = 1 \<and>
   additions (diff_report fp [''x'', ''y''] [''x'', ''z''] oldLabel newLabel) = 1 \<and>
   fileDiff (example_env h m) diff_world ''/p'' ''a.txt'' 1 0 =
     Inr \<lparr>d_file = ''a.txt'', additions = 1, deletions = 1,
          diff_text = join [newline]
            [''--- 2026-02-20T09-00-00-000Z.snapshot'', ''+++ 2026-02-21T10-00-00-000Z.snapshot'',
             ''-y'', ''+z'']\<rparr>"
proof -
  have "simpleDiff oldLines newLines oldLabel newLabel =
     [''--- '' @ oldLabel, ''+++ '' @ newLabel]
     @ concat (map (diff_at oldLines newLines) [0..<max (length oldLines) (length newLines)])"
    by (simp only: simpleDiff_def diff_loop_eq)
  moreover have "deletions (diff_report fp [''x'', ''y''] [''x'', ''z''] oldLabel newLabel) = 1"
    by (simp add: diff_report_def simpleDiff_xy_xz count_deletions_def startsWith_def Let_def)
  moreover have "additions (diff_report fp [''x'', ''y''] [''x'', ''z''] oldLabel newLabel) = 1"
    by (simp add: diff_report_def simpleDiff_xy_xz count_additions_def startsWith_def Let_def)
  ultimately show ?thesis using simpleDiff_xy_xz fileDiff_xy_xz by simp
qed

subsection \<open>Cosine similarity\<close>


















lemma cos_unit:
  "cosineSimilarity (example_env h m) [1, 0] [0, 1] = Num 0"
  "cosineSimilarity (example_env h m) [1, 0] [1, 0] = Num 1"
  "cosineSimilarity (example_env h m) [1, 0] [0, 0] = NaN"
  "cosineSimilarity (example_env h m) [0, 0] [1, 0] = NaN"
  by (simp_all add: cosineSimilarity_def cos_loop.simps operand_def example_env_def)




subsection \<open>Search ranking\<close>

lemma rank_positive:
  assumes "sx \<noteq> NaN" "sy \<noteq> NaN"
  shows "js_positive (js_sub sy sx) = (\<not> score_rank sx \<le> score_rank sy)"
  using assms by (cases sx; cases sy) auto

lemma rank_ge:
  assumes "sa \<noteq> NaN" "sb \<noteq> NaN"
  shows "js_ge sa sb = (score_rank sa \<le> score_rank sb)"
  using assms by (cases sa; cases sb) auto

lemma rank_inj: "(score_rank sa = score_rank k) = (sa = k)"
  by (cases sa; cases k) auto

lemma insert_by_insort:
  assumes "score x \<noteq> NaN" "\<forall>y \<in> set ys. score y \<noteq> NaN"
  shows "insert_by by_score x ys = insort_key (\<lambda>a. score_rank (score a)) x ys"
  using assms
proof (induction ys)
  case Nil
  then show ?case by simp
next
  case (Cons y ys)
  then have "js_positive (js_sub (score y) (score x))
               = (\<not> score_rank (score x) \<le> score_rank (score y))"
    by (intro rank_positive) simp_all
  then show ?case using Cons by simp
qed

lemma array_sort_sort_key:
  assumes "\<forall>x \<in> set xs. score x \<noteq> NaN"
  shows "array_sort by_score xs = sort_key (\<lambda>a. score_rank (score a)) xs"
  using assms
proof (induction xs)
  case Nil
  then show ?case by (simp add: array_sort_def)
next
  case (Cons x xs)
  then have ih: "array_sort by_score xs = sort_key (\<lambda>a. score_rank (score a)) xs" by simp
  have "array_sort by_score (x # xs) = insert_by by_score x (array_sort by_score xs)"
    by (simp add: array_sort_def)
  also have "\<dots> = insort_key (\<lambda>a. score_rank (score a)) x (sort_key (\<lambda>a. score_rank (score a)) xs)"
    unfolding ih using Cons.prems by (intro insert_by_insort) simp_all
  finally show ?case by simp
qed

lemma non_increasing_sort_key:
  assumes "\<forall>x \<in> set xs. score x \<noteq> NaN"
  shows "non_increasing (sort_key (\<lambda>a. score_rank (score a)) xs)"
proof -
  let ?f = "\<lambda>a. score_rank (score a)"
  have "sorted (map ?f (sort_key ?f xs))" by (rule sorted_sort_key)
  then have "sorted_wrt (\<lambda>a b. ?f a \<le> ?f b) (sort_key ?f xs)"
    by (simp add: sorted_map)
  moreover have "js_ge (score a) (score b)"
    if "a \<in> set (sort_key ?f xs)" "b \<in> set (sort_key ?f xs)" "?f a \<le> ?f b" for a b
  proof -
    from that assms have "score a \<noteq> NaN" "score b \<noteq> NaN" by simp_all
    then show ?thesis using that(3) by (simp add: rank_ge)
  qed
  ultimately show ?thesis
    unfolding non_increasing_def by (rule sorted_wrt_mono_rel[rotated]) auto
qed

lemma stable_sort_key:
  "filter (\<lambda>a. score a = k) (sort_key (\<lambda>a. score_rank (score a)) xs) = filter (\<lambda>a. score a = k) xs"
proof -
  let ?f = "\<lambda>a. score_rank (score a)"
  have "filter (\<lambda>a. ?f a = score_rank k) (sort_key ?f xs) = filter (\<lambda>a. ?f a = score_rank k) xs"
    by (rule sort_key_stable)
  then show ?thesis by (simp only: rank_inj)
qed

lemma non_increasing_take: "non_increasing xs \<Longrightarrow> non_increasing (take n xs)"
  unfolding non_increasing_def by (rule sorted_wrt_take)

text \<open>
  Claim C4, as amended. When the similarity of the query with every candidate is a number
  (not NaN) and the limit is not negative, \<open>vectorSearch\<close> returns the first \<open>limit\<close>
  elements of a ranking that is a permutation of the scored candidates (the entries passing
  the filter), is in non-increasing score order, and keeps candidates of equal score in
  their insertion order; so the result is in non-increasing order and has at most \<open>limit\<close>
  elements.
\<close>

theorem vectorSearch_ranking:
  assumes "\<forall>v \<in> set (candidates s filterFn). cosineSimilarity e q (embedding v) \<noteq> NaN"
    and "0 \<le> limit"
  shows "(\<exists>ranked.
            vectorSearch e s q limit filterFn = take (nat limit) ranked \<and>
            mset ranked = mset (map (with_score e q) (candidates s filterFn)) \<and>
            non_increasing ranked \<and>
            (\<forall>k. filter (\<lambda>a. score a = k) ranked
                 = filter (\<lambda>a. score a = k) (map (with_score e q) (candidates s filterFn)))) \<and>
         non_increasing (vectorSearch e s q limit filterFn) \<and>
         length (vectorSearch e s q limit filterFn) \<le> nat limit"
proof -
  let ?all = "map (with_score e q) (candidates s filterFn)"
  let ?f = "\<lambda>a. score_rank (score a)"
  have num: "\<forall>x \<in> set ?all. score x \<noteq> NaN"
    using assms(1) by (simp add: with_score_def)
  have sorted: "array_sort by_score ?all = sort_key ?f ?all"
    by (rule array_sort_sort_key[OF num])
  have res: "vectorSearch e s q limit filterFn = take (nat limit) (sort_key ?f ?all)"
    using assms(2) by (simp add: vectorSearch_def slice0_def sorted)
  have "mset (sort_key ?f ?all) = mset ?all" by simp
  moreover have ni: "non_increasing (sort_key ?f ?all)" by (rule non_increasing_sort_key[OF num])
  moreover have "\<forall>k. filter (\<lambda>a. score a = k) (sort_key ?f ?all) = filter (\<lambda>a. score a = k) ?all"
    by (simp add: stable_sort_key)
  ultimately have "\<exists>ranked.
            vectorSearch e s q limit filterFn = take (nat limit) ranked \<and>
            mset ranked = mset ?all \<and> non_increasing ranked \<and>
            (\<forall>k. filter (\<lambda>a. score a = k) ranked = filter (\<lambda>a. score a = k) ?all)"
    using res by blast
  moreover have "non_increasing (vectorSearch e s q limit filterFn)"
    unfolding res by (rule non_increasing_take[OF ni])
  moreover have "length (vectorSearch e s q limit filterFn) \<le> nat limit"
    unfolding res by simp
  ultimately show ?thesis by blast
qed

theorem vectorSearch_ranking_witness:
  "cosineSimilarity (example_env id None) [1, 0] [0, 1] \<noteq> NaN \<and>
   cosineSimilarity (example_env id None) [1, 0] [1, 0] \<noteq> NaN \<and> (0::int) \<le> 2 \<and>
   map s_id (vectorSearch (example_env id None)
       (example_store [(''a.txt'', [0, 1]), (''b.txt'', [1, 0]), (''c.txt'', [1, 0])])
       [1, 0] 2 None) = [''b.txt:1'', ''c.txt:1''] \<and>
   non_increasing (vectorSearch (example_env id None)
       (example_store [(''a.txt'', [0, 1]), (''b.txt'', [1, 0]), (''c.txt'', [1, 0])])
       [1, 0] 2 None) \<and>
   length (vectorSearch (example_env id None)
       (example_store [(''a.txt'', [0, 1]), (''b.txt'', [1, 0]), (''c.txt'', [1, 0])])
       [1, 0] 2 None) \<le> nat 2"
proof -
  let ?e = "example_env id None"
  let ?s = "example_store [(''a.txt'', [0, 1]), (''b.txt'', [1, 0]), (''c.txt'', [1, 0])]"
  have h1: "\<forall>v \<in> set (candidates ?s None). cosineSimilarity ?e [1, 0] (embedding v) \<noteq> NaN"
    by (simp add: candidates_def example_store_def initial_indexer_def cos_unit)
  have h2: "(0::int) \<le> 2" by simp
  have ids: "map s_id (vectorSearch ?e ?s [1, 0] 2 None) = [''b.txt:1'', ''c.txt:1'']"
    by (simp add: vectorSearch_def candidates_def example_store_def initial_indexer_def with_score_def
      cos_unit array_sort_def slice0_def)
  show ?thesis
    using vectorSearch_ranking[OF h1 h2] ids by (simp add: cos_unit)
qed

lemma nan_not_non_increasing:
  assumes "x \<in> set xs" "score x = NaN" "2 \<le> length xs"
  shows "\<not> non_increasing xs"
proof
  assume "non_increasing xs"
  then have sw: "\<And>i j. i < j \<Longrightarrow> j < length xs \<Longrightarrow> js_ge (score (xs ! i)) (score (xs ! j))"
    by (simp add: non_increasing_def sorted_wrt_iff_nth_less)
  from assms(1) obtain i where i: "i < length xs" "xs ! i = x" by (auto simp: in_set_conv_nth)
  show False
  proof (cases "i = 0")
    case True
    then have "js_ge (score (xs ! 0)) (score (xs ! 1))" using sw[of 0 1] assms(3) by simp
    then show False using True i assms(2) by simp
  next
    case False
    then have "js_ge (score (xs ! 0)) (score (xs ! i))" using sw[of 0 i] i by simp
    then show False using i assms(2) by (cases "score (xs ! 0)") simp_all
  qed
qed

text \<open>
  The claim as stated fails when a stored vector has norm zero: its score is NaN, every
  comparison with it counts as a tie, and the result is not in non-increasing order. No
  order of these candidates is, whatever the sorting algorithm: a score of NaN is neither
  above nor below another score.
\<close>

theorem vectorSearch_nan_counterexample:
  "map score (vectorSearch (example_env id None)
       (example_store [(''a.txt'', [0, 1]), (''b.txt'', [0, 0]), (''c.txt'', [1, 0])])
       [1, 0] 8 None) = [Num 0, NaN, Num 1] \<and>
   \<not> non_increasing (vectorSearch (example_env id None)
       (example_store [(''a.txt'', [0, 1]), (''b.txt'', [0, 0]), (''c.txt'', [1, 0])])
       [1, 0] 8 None) \<and>
   \<not> (\<exists>ranked. mset ranked = mset (map (with_score (example_env id None) [1, 0])
          (candidates (example_store [(''a.txt'', [0, 1]), (''b.txt'', [0, 0]), (''c.txt'', [1, 0])]) None)) \<and>
        non_increasing ranked)"
proof -
  let ?s = "example_store [(''a.txt'', [0, 1]), (''b.txt'', [0, 0]), (''c.txt'', [1, 0])]"
  let ?all = "map (with_score (example_env id None) [1, 0]) (candidates ?s None)"
  have run: "map score (vectorSearch (example_env id None) ?s [1, 0] 8 None) = [Num 0, NaN, Num 1] \<and>
      \<not> non_increasing (vectorSearch (example_env id None) ?s [1, 0] 8 None)"
    by (simp add: vectorSearch_def candidates_def example_store_def initial_indexer_def with_score_def
        cos_unit array_sort_def slice0_def non_increasing_def)
  have "\<not> (\<exists>ranked. mset ranked = mset ?all \<and> non_increasing ranked)"
  proof
    assume "\<exists>ranked. mset ranked = mset ?all \<and> non_increasing ranked"
    then obtain ranked where r: "mset ranked = mset ?all" "non_increasing ranked" by blast
    have len: "length ?all = 3"
      by (simp add: candidates_def example_store_def initial_indexer_def)
    have "\<exists>x \<in> set ?all. score x = NaN"
      by (simp add: candidates_def example_store_def initial_indexer_def with_score_def cos_unit)
    then obtain x where x: "x \<in> set ranked" "score x = NaN"
      using mset_eq_setD[OF r(1)] by auto
    have "length ranked = 3" using mset_eq_length[OF r(1)] len by simp
    then have "\<not> non_increasing ranked"
      by (intro nan_not_non_increasing[OF x]) simp
    with r(2) show False by simp
  qed
  with run show ?thesis by blast
qed

subsection \<open>The fixed-size chunker\<close>

lemma win_same: "win ls a a = []"
  by (simp add: win_def)

lemma win_Suc:
  assumes "a \<le> i" "i < length ls"
  shows "win ls a (Suc i) = win ls a i @ ls ! i @ [newline]"
proof -
  have "Suc i - a = Suc (i - a)" using assms by simp
  moreover have "i - a < length (drop a ls)" using assms by simp
  ultimately have "take (Suc i - a) (drop a ls) = take (i - a) (drop a ls) @ [drop a ls ! (i - a)]"
    by (simp add: take_Suc_conv_app_nth)
  moreover have "drop a ls ! (i - a) = ls ! i" using assms by simp
  ultimately show ?thesis by (simp add: win_def)
qed

lemma fixed_loop_done:
  "\<not> i < length ls \<Longrightarrow> fixed_loop base rel ls i cur st cs = cs"
  by (subst fixed_loop.simps) simp

lemma fixed_chunk_sel [simp]:
  "line_start (fixed_chunk base rel ls st en) = st"
  "line_end (fixed_chunk base rel ls st en) = en"
  "filepath (fixed_chunk base rel ls st en) = rel"
  "chunk_type (fixed_chunk base rel ls st en) = ''file_chunk''"
  "name (fixed_chunk base rel ls st en) = base @ '':L'' @ show_nat st @ ''-'' @ show_nat en"
  "chunk_text (fixed_chunk base rel ls st en) = trim (win ls (st - 1) en)"
  by (simp_all add: fixed_chunk_def)

lemma fixed_loop_flush_raw:
  assumes "i < length ls"
    and "maxChunkChars \<le> length (cur @ ls ! i @ [newline]) \<or> i = length ls - 1"
  shows "fixed_loop base rel ls i cur st cs =
         fixed_loop base rel ls (i + 1) [] (i + 2)
           (cs @ [\<lparr>name = base @ '':L'' @ show_nat st @ ''-'' @ show_nat (i + 1),
                    chunk_type = ''file_chunk'', filepath = rel,
                    line_start = st, line_end = i + 1,
                    chunk_text = trim (cur @ ls ! i @ [newline])\<rparr>])"
  by (subst fixed_loop.simps) (simp only: assms Let_def if_True)

lemma fixed_loop_flush:
  assumes "i < length ls"
    and "maxChunkChars \<le> length (cur @ ls ! i @ [newline]) \<or> i = length ls - 1"
    and "cur = win ls (st - 1) i" and "st - 1 \<le> i"
  shows "fixed_loop base rel ls i cur st cs =
         fixed_loop base rel ls (i + 1) [] (i + 2) (cs @ [fixed_chunk base rel ls st (i + 1)])"
proof -
  have "win ls (st - 1) (i + 1) = cur @ ls ! i @ [newline]"
    using assms by (simp add: win_Suc)
  then show ?thesis
    by (subst fixed_loop.simps) (simp only: assms(1,2) Let_def if_True fixed_chunk_def)
qed

lemma fixed_loop_keep:
  assumes "i < length ls"
    and "\<not> (maxChunkChars \<le> length (cur @ ls ! i @ [newline]) \<or> i = length ls - 1)"
  shows "fixed_loop base rel ls i cur st cs =
         fixed_loop base rel ls (i + 1) (cur @ ls ! i @ [newline]) st cs"
  by (subst fixed_loop.simps) (simp only: assms Let_def if_True if_False)

lemma fixed_loop_acc:
  "fixed_loop base rel ls i cur st cs = cs @ fixed_loop base rel ls i cur st []"
proof (induction "length ls - i" arbitrary: i cur st cs)
  case 0
  then have "\<not> i < length ls" by simp
  then show ?case by (simp add: fixed_loop_done)
next
  case (Suc n)
  then have lt: "i < length ls" and n: "n = length ls - (i + 1)" by simp_all
  let ?cur = "cur @ ls ! i @ [newline]"
  show ?case
  proof (cases "maxChunkChars \<le> length ?cur \<or> i = length ls - 1")
    case True
    define c where "c = \<lparr>name = base @ '':L'' @ show_nat st @ ''-'' @ show_nat (i + 1),
                    chunk_type = ''file_chunk'', filepath = rel,
                    line_start = st, line_end = i + 1,
                    chunk_text = trim (cur @ ls ! i @ [newline])\<rparr>"
    have a: "fixed_loop base rel ls i cur st xs = fixed_loop base rel ls (i + 1) [] (i + 2) (xs @ [c])" for xs
      unfolding c_def by (rule fixed_loop_flush_raw[OF lt True])
    have b: "fixed_loop base rel ls (i + 1) [] (i + 2) xs = xs @ fixed_loop base rel ls (i + 1) [] (i + 2) []" for xs
      by (rule Suc.hyps(1)[OF n])
    have "fixed_loop base rel ls i cur st cs = (cs @ [c]) @ fixed_loop base rel ls (i + 1) [] (i + 2) []"
      by (simp only: a b[of "cs @ [c]"])
    moreover have "fixed_loop base rel ls i cur st [] = ([] @ [c]) @ fixed_loop base rel ls (i + 1) [] (i + 2) []"
      by (simp only: a b[of "[] @ [c]"])
    ultimately show ?thesis by simp
  next
    case False
    have a: "fixed_loop base rel ls i cur st xs = fixed_loop base rel ls (i + 1) ?cur st xs" for xs
      by (rule fixed_loop_keep[OF lt False])
    show ?thesis
      by (simp only: a Suc.hyps(1)[OF n, of ?cur st cs])
  qed
qed

lemma fixed_loop_windows:
  assumes "1 \<le> st" "st - 1 \<le> i" "i \<le> length ls" "cur = win ls (st - 1) i"
    "length cur < maxChunkChars" "i = length ls \<longrightarrow> st = i + 1"
  shows "windows_from base rel ls st (fixed_loop base rel ls i cur st [])"
  using assms
proof (induction "length ls - i" arbitrary: i cur st)
  case 0
  then have "i = length ls" by simp
  then show ?case using "0.prems" by (simp add: fixed_loop_done)
next
  case (Suc n)
  then have lt: "i < length ls" and n: "n = length ls - (i + 1)" by simp_all
  let ?cur = "cur @ ls ! i @ [newline]"
  have cur': "?cur = win ls (st - 1) (i + 1)"
    using Suc.prems lt by (simp add: win_Suc)
  show ?case
  proof (cases "maxChunkChars \<le> length ?cur \<or> i = length ls - 1")
    case True
    let ?c = "fixed_chunk base rel ls st (i + 1)"
    have "fixed_loop base rel ls i cur st [] = fixed_loop base rel ls (i + 1) [] (i + 2) ([] @ [?c])"
      using Suc.prems by (intro fixed_loop_flush[OF lt True]) simp_all
    also have "\<dots> = ?c # fixed_loop base rel ls (i + 1) [] (i + 2) []"
      by (subst fixed_loop_acc) simp
    finally have eq: "fixed_loop base rel ls i cur st [] = ?c # fixed_loop base rel ls (i + 1) [] (i + 2) []" .
    have rest: "windows_from base rel ls (i + 2) (fixed_loop base rel ls (i + 1) [] (i + 2) [])"
      using lt by (intro Suc.hyps(1)[OF n]) (simp_all add: win_same maxChunkChars_def)
    have budget: "maxChunkChars \<le> length (win ls (st - 1) (i + 1)) \<or> i + 1 = length ls"
      using True lt cur' by auto
    show ?thesis
      unfolding eq using Suc.prems lt rest budget by simp
  next
    case False
    have "fixed_loop base rel ls i cur st [] = fixed_loop base rel ls (i + 1) ?cur st []"
      by (rule fixed_loop_keep[OF lt False])
    moreover have "length ?cur < maxChunkChars" "i + 1 \<noteq> length ls"
      using False lt by auto
    then have "windows_from base rel ls st (fixed_loop base rel ls (i + 1) ?cur st [])"
      using Suc.prems(1,2) lt cur' by (intro Suc.hyps(1)[OF n]) simp_all
    ultimately show ?thesis by simp
  qed
qed

lemma split_on_nonempty [simp]: "split_on sep s \<noteq> []"
  by (induction s) (auto split: list.splits)

lemma windows_from_nth:
  assumes "windows_from base rel ls st cs" "k < length cs"
  shows "cs ! k = fixed_chunk base rel ls (line_start (cs ! k)) (line_end (cs ! k)) \<and>
         st \<le> line_start (cs ! k) \<and> line_start (cs ! k) \<le> line_end (cs ! k) \<and>
         line_end (cs ! k) \<le> length ls \<and>
         length (win ls (line_start (cs ! k) - 1) (line_end (cs ! k) - 1)) < maxChunkChars \<and>
         (k + 1 < length cs \<longrightarrow>
            line_start (cs ! (k + 1)) = line_end (cs ! k) + 1 \<and>
            maxChunkChars \<le> length (win ls (line_start (cs ! k) - 1) (line_end (cs ! k))))"
  using assms
proof (induction cs arbitrary: st k)
  case Nil
  then show ?case by simp
next
  case (Cons c cs)
  from Cons.prems(1) have c: "st \<le> line_end c" "line_end c \<le> length ls"
      "c = fixed_chunk base rel ls st (line_end c)"
      "length (win ls (st - 1) (line_end c - 1)) < maxChunkChars"
      "maxChunkChars \<le> length (win ls (st - 1) (line_end c)) \<or> line_end c = length ls"
      "windows_from base rel ls (line_end c + 1) cs"
    by simp_all
  have st: "line_start c = st" by (subst c(3)) simp
  show ?case
  proof (cases k)
    case 0
    have nxt: "line_start (hd cs) = line_end c + 1 \<and>
               maxChunkChars \<le> length (win ls (st - 1) (line_end c))" if "cs \<noteq> []"
    proof -
      from that obtain d ds where cs: "cs = d # ds" by (cases cs) auto
      with c(6) have d: "line_end c + 1 \<le> line_end d" "line_end d \<le> length ls"
        "d = fixed_chunk base rel ls (line_end c + 1) (line_end d)" by simp_all
      have "line_start d = line_end c + 1" by (subst d(3)) simp
      moreover have "line_end c \<noteq> length ls" using d by simp
      ultimately show ?thesis using c(5) cs by simp
    qed
    have "cs ! 0 = hd cs" if "cs \<noteq> []" using that by (simp add: hd_conv_nth)
    then show ?thesis using 0 c st nxt by auto
  next
    case (Suc j)
    then have j: "j < length cs" using Cons.prems(2) by simp
    from Cons.IH[OF c(6) j] show ?thesis using Suc c(1) by auto
  qed
qed

lemma windows_from_last:
  assumes "windows_from base rel ls st cs" "cs \<noteq> []"
  shows "line_end (last cs) = length ls"
  using assms
proof (induction cs arbitrary: st)
  case Nil
  then show ?case by simp
next
  case (Cons c cs)
  from Cons.prems(1) have w: "windows_from base rel ls (line_end c + 1) cs" by simp
  show ?case
  proof (cases "cs = []")
    case True
    with w show ?thesis by simp
  next
    case False
    then show ?thesis using Cons.IH[OF w False] by simp
  qed
qed

lemma chunkFixedSize_windows_from:
  assumes "trim source \<noteq> []"
  shows "windows_from (path_basename e fp) (path_relative e r fp) (split_on newline source) 1
           (chunkFixedSize e r fp source)"
proof -
  have "windows_from (path_basename e fp) (path_relative e r fp) (split_on newline source) 1
          (fixed_loop (path_basename e fp) (path_relative e r fp) (split_on newline source) 0 [] 1 [])"
    by (rule fixed_loop_windows) (simp_all add: win_same maxChunkChars_def)
  then show ?thesis using assms by (simp add: chunkFixedSize_def Let_def)
qed

lemma split_on_no_sep: "sep \<notin> set l \<Longrightarrow> split_on sep l = [l]"
  by (induction l) auto

lemma split_on_append_sep:
  "sep \<notin> set l \<Longrightarrow> split_on sep (l @ sep # rest) = l # split_on sep rest"
  by (induction l) auto

lemma split_join:
  assumes "ls \<noteq> []" "\<forall>l \<in> set ls. sep \<notin> set l"
  shows "split_on sep (join [sep] ls) = ls"
  using assms
proof (induction "[sep]" ls rule: join.induct)
  case 1
  then show ?case by simp
next
  case (2 l)
  then show ?case by (simp add: split_on_no_sep)
next
  case (3 l v va)
  then show ?case by (simp add: split_on_append_sep)
qed


lemma join_split: "join [sep] (split_on sep s) = s"
proof (induction s)
  case Nil
  then show ?case by simp
next
  case (Cons c s)
  obtain l ls where sp: "split_on sep s = l # ls"
    using split_on_nonempty[of sep s] by (cases "split_on sep s") auto
  show ?case
  proof (cases "c = sep")
    case True
    then show ?thesis using Cons sp by simp
  next
    case False
    then show ?thesis using Cons sp by (cases ls) simp_all
  qed
qed



lemma trim_clean:
  assumes "s \<noteq> []" "\<not> is_ws (hd s)" "\<not> is_ws (last s)"
  shows "trim (s @ [newline]) = s"
proof -
  have a: "dropWhile is_ws (s @ [newline]) = s @ [newline]"
    using assms by (cases s) simp_all
  have b: "dropWhile is_ws (rev (s @ [newline])) = rev s"
    using assms by (cases "rev s") (simp_all add: is_ws_def newline_def last_rev hd_rev)
  show ?thesis by (simp only: trim_def a b rev_rev_ident)
qed




lemma clean_not_blank:
  assumes "list_all clean_line (split_on newline source)"
  shows "trim source \<noteq> []"
proof -
  obtain l ls where sp: "split_on newline source = l # ls"
    using split_on_nonempty[of newline source] by (cases "split_on newline source") auto
  then have l: "l \<noteq> []" "\<not> is_ws (hd l)" using assms by (simp_all add: clean_line_def)
  have "source = join [newline] (l # ls)" using join_split[of newline source] sp by simp
  then have "source \<noteq> []" "hd source = hd l" using l by (cases ls; cases l; simp)+
  then have "dropWhile is_ws source = source" using l by (cases source) simp_all
  then have "trim source = rev (dropWhile is_ws (rev source))" by (simp add: trim_def)
  moreover have "length (dropWhile is_ws (rev source)) \<noteq> 0"
  proof
    assume "length (dropWhile is_ws (rev source)) = 0"
    then have "\<forall>c \<in> set (rev source). is_ws c"
      by (simp add: dropWhile_eq_Nil_conv)
    moreover have "hd source \<in> set source" using \<open>source \<noteq> []\<close> by simp
    ultimately show False using l \<open>hd source = hd l\<close> by simp
  qed
  ultimately show ?thesis by auto
qed


lemma chunkFixedSize_several:
  assumes "trim source \<noteq> []"
    and "maxChunkChars \<le> length (win (split_on newline source) 0 (length (split_on newline source) - 1))"
  shows "1 < length (chunkFixedSize e r fp source)"
proof -
  let ?ls = "split_on newline source" and ?cs = "chunkFixedSize e r fp source"
  have w: "windows_from (path_basename e fp) (path_relative e r fp) ?ls 1 ?cs"
    by (rule chunkFixedSize_windows_from[OF assms(1)])
  show ?thesis
  proof (cases ?cs)
    case Nil
    with w have "length ?ls = 0" by simp
    then show ?thesis by simp
  next
    case (Cons c cs')
    show ?thesis
    proof (cases cs')
      case Nil
      from w[unfolded \<open>?cs = c # cs'\<close> Nil windows_from.simps]
      have "line_end c + 1 = length ?ls + 1"
        and "length (win ?ls (1 - 1) (line_end c - 1)) < maxChunkChars" by blast+
      with assms(2) show ?thesis by simp
    next
      case (Cons d ds)
      then show ?thesis using \<open>?cs = c # cs'\<close> by simp
    qed
  qed
qed

lemma digit_char_digit: "d < 10 \<Longrightarrow> digit_char d \<in> set ''0123456789''"
proof -
  assume "d < 10"
  then have "d < length ''0123456789''" by simp
  then show ?thesis unfolding digit_char_def by (rule nth_mem)
qed

lemma show_nat_digits: "set (show_nat n) \<subseteq> set ''0123456789''"
proof (induction n rule: show_nat.induct)
  case (1 n)
  show ?case
  proof (cases "n < 10")
    case True
    then show ?thesis using digit_char_digit[of n] by (subst show_nat.simps) simp
  next
    case False
    have "n mod 10 < 10" by simp
    then have "digit_char (n mod 10) \<in> set ''0123456789''" by (rule digit_char_digit)
    then show ?thesis using False "1.IH" by (subst show_nat.simps) simp
  qed
qed

lemma show_nat_nonempty: "show_nat n \<noteq> []"
  by (subst show_nat.simps) simp

lemma test_line_clean: "clean_line (test_line i)"
  by (simp add: clean_line_def test_line_def is_ws_def)

lemma test_line_no_newline: "newline \<notin> set (test_line i)"
  using show_nat_digits[of i] by (auto simp: test_line_def newline_def)

lemma test_line_length: "20 \<le> length (test_line i)"
proof -
  have "1 \<le> length (show_nat i)" using show_nat_nonempty[of i] by (cases "show_nat i") simp_all
  then show ?thesis by (simp add: test_line_def)
qed

lemma split_test_source: "split_on newline test_source = test_lines"
  unfolding test_source_def
  by (rule split_join) (auto simp: test_lines_def test_line_no_newline)

lemma sum_list_lower:
  "\<forall>x \<in> set xs. c \<le> f x \<Longrightarrow> length xs * c \<le> sum_list (map f xs)"
  by (induction xs) (simp_all add: add_mono)

lemma win_length_lower:
  assumes "a \<le> b" "b \<le> length ls" "\<forall>l \<in> set ls. c \<le> length l"
  shows "(b - a) * (c + 1) \<le> length (win ls a b)"
proof -
  let ?xs = "take (b - a) (drop a ls)"
  have len: "length ?xs = b - a" using assms by simp
  have "set ?xs \<subseteq> set ls" by (meson set_drop_subset set_take_subset subset_trans)
  then have "\<forall>l \<in> set ?xs. c + 1 \<le> length l + 1" using assms(3) by auto
  then have "length ?xs * (c + 1) \<le> sum_list (map (\<lambda>l. length l + 1) ?xs)"
    by (rule sum_list_lower)
  moreover have "length (win ls a b) = sum_list (map (\<lambda>l. length l + 1) ?xs)"
    by (simp add: win_def length_concat comp_def)
  ultimately show ?thesis using len by simp
qed

lemma test_lines_budget: "maxChunkChars \<le> length (win test_lines 0 (length test_lines - 1))"
proof -
  have "(199 - 0) * (20 + 1) \<le> length (win test_lines 0 199)"
    by (rule win_length_lower) (auto simp: test_lines_def test_line_length)
  then show ?thesis by (simp add: test_lines_def maxChunkChars_def)
qed

lemma chunkFixedSize_one_line_chunk:
  assumes "newline \<notin> set s" "s \<noteq> []" "\<not> is_ws (hd s)" "\<not> is_ws (last s)"
  shows "chunkFixedSize e r fp s = [fixed_chunk (path_basename e fp) (path_relative e r fp) [s] 1 1]"
proof -
  let ?b = "path_basename e fp" and ?rel = "path_relative e r fp"
  have sp: "split_on newline s = [s]" by (rule split_on_no_sep[OF assms(1)])
  have "dropWhile is_ws s = s" using assms by (cases s) simp_all
  moreover have "dropWhile is_ws (rev s) = rev s"
    using assms by (cases "rev s") (simp_all add: last_rev hd_rev)
  ultimately have tr: "trim s = s" by (simp add: trim_def)
  have "fixed_loop ?b ?rel [s] 0 [] 1 [] = fixed_loop ?b ?rel [s] (0 + 1) [] (0 + 2) ([] @ [fixed_chunk ?b ?rel [s] 1 (0 + 1)])"
    by (rule fixed_loop_flush) (simp_all add: win_same)
  also have "\<dots> = [fixed_chunk ?b ?rel [s] 1 1]"
    by (simp add: fixed_loop_done)
  finally show ?thesis
    using assms(2) by (simp add: chunkFixedSize_def sp tr Let_def)
qed

lemma chunkFixedSize_one_line:
  assumes "newline \<notin> set s" "s \<noteq> []" "\<not> is_ws (hd s)" "\<not> is_ws (last s)"
  shows "map chunk_text (chunkFixedSize e r fp s) = [s]"
proof -
  have "trim (win [s] 0 1) = s"
    using trim_clean[OF assms(2,3,4)] by (simp add: win_def)
  then show ?thesis
    by (simp add: chunkFixedSize_one_line_chunk[OF assms])
qed

lemma test_source_several:
  "1 < length (chunkFixedSize e r fp test_source)"
proof -
  have "list_all clean_line (split_on newline test_source)"
    by (simp add: split_test_source test_lines_def list_all_iff test_line_clean)
  then have "trim test_source \<noteq> []" by (rule clean_not_blank)
  then show ?thesis
    by (rule chunkFixedSize_several) (simp only: split_test_source test_lines_budget)
qed

text \<open>
  Claim C7, as amended. For every input text the chunks of \<open>chunkFixedSize\<close> are whole-line
  windows: chunk \<open>k\<close> is the trimmed text of the lines \<open>line_start\<close> to \<open>line_end\<close>, each
  with its newline, named \<^verbatim>\<open>basename:Lstart-end\<close>. The first chunk starts at line 1, each
  next chunk starts at the line after the previous chunk's last line, and the last chunk
  ends at the last line. The budget closes a window, it does not bound it: a window without
  its last line is shorter than \<open>maxChunkChars\<close>, and every window but the last has reached
  \<open>maxChunkChars\<close>, so a chunk can exceed the budget by up to the length of one line. There
  are no chunks exactly when the text is blank.
\<close>

theorem chunkFixedSize_shape:
  fixes e :: env and r fp source :: string
  defines "ls \<equiv> split_on newline source"
    and "cs \<equiv> chunkFixedSize e r fp source"
  shows "(\<forall>k < length cs.
            cs ! k = fixed_chunk (path_basename e fp) (path_relative e r fp) ls
                       (line_start (cs ! k)) (line_end (cs ! k)) \<and>
            1 \<le> line_start (cs ! k) \<and> line_start (cs ! k) \<le> line_end (cs ! k) \<and>
            line_end (cs ! k) \<le> length ls \<and>
            length (win ls (line_start (cs ! k) - 1) (line_end (cs ! k) - 1)) < maxChunkChars \<and>
            (k + 1 < length cs \<longrightarrow>
               line_start (cs ! (k + 1)) = line_end (cs ! k) + 1 \<and>
               maxChunkChars \<le> length (win ls (line_start (cs ! k) - 1) (line_end (cs ! k))))) \<and>
         (cs \<noteq> [] \<longrightarrow> line_start (hd cs) = 1 \<and> line_end (last cs) = length ls) \<and>
         (cs = [] \<longleftrightarrow> trim source = [])"
proof (cases "trim source = []")
  case True
  then have "cs = []" by (simp add: cs_def chunkFixedSize_def Let_def)
  with True show ?thesis by simp
next
  case False
  let ?b = "path_basename e fp" and ?rel = "path_relative e r fp"
  have w: "windows_from ?b ?rel ls 1 cs"
    unfolding ls_def cs_def by (rule chunkFixedSize_windows_from[OF False])
  have ne: "cs \<noteq> []"
  proof
    assume "cs = []"
    with w have "length ls = 0" by simp
    then show False by (simp add: ls_def)
  qed
  have hd: "line_start (hd cs) = 1"
  proof -
    from ne obtain c cs' where cs: "cs = c # cs'" by (cases cs) auto
    with w have "c = fixed_chunk ?b ?rel ls 1 (line_end c)" by simp
    then have "line_start c = 1" by (metis fixed_chunk_sel(1))
    then show ?thesis using cs by simp
  qed
  have "\<forall>k < length cs.
            cs ! k = fixed_chunk ?b ?rel ls (line_start (cs ! k)) (line_end (cs ! k)) \<and>
            1 \<le> line_start (cs ! k) \<and> line_start (cs ! k) \<le> line_end (cs ! k) \<and>
            line_end (cs ! k) \<le> length ls \<and>
            length (win ls (line_start (cs ! k) - 1) (line_end (cs ! k) - 1)) < maxChunkChars \<and>
            (k + 1 < length cs \<longrightarrow>
               line_start (cs ! (k + 1)) = line_end (cs ! k) + 1 \<and>
               maxChunkChars \<le> length (win ls (line_start (cs ! k) - 1) (line_end (cs ! k))))"
    using windows_from_nth[OF w] by blast
  then show ?thesis using ne hd windows_from_last[OF w ne] False by blast
qed

theorem chunkFixedSize_shape_witness:
  "0 + 1 < length (chunkFixedSize (example_env id None) ''/p'' ''/p/big.txt'' test_source) \<and>
   chunkFixedSize (example_env id None) ''/p'' ''/p/big.txt'' test_source \<noteq> [] \<and>
   line_start (chunkFixedSize (example_env id None) ''/p'' ''/p/big.txt'' test_source ! (0 + 1))
     = line_end (chunkFixedSize (example_env id None) ''/p'' ''/p/big.txt'' test_source ! 0) + 1 \<and>
   line_start (hd (chunkFixedSize (example_env id None) ''/p'' ''/p/big.txt'' test_source)) = 1 \<and>
   line_end (last (chunkFixedSize (example_env id None) ''/p'' ''/p/big.txt'' test_source)) = 200"
proof -
  let ?cs = "chunkFixedSize (example_env id None) ''/p'' ''/p/big.txt'' test_source"
  have n: "0 + 1 < length ?cs" using test_source_several[of "example_env id None" "''/p''" "''/p/big.txt''"] by simp
  then have k: "0 < length ?cs" and ne: "?cs \<noteq> []" by auto
  have len: "length (split_on newline test_source) = 200"
    by (simp add: split_test_source test_lines_def)
  note sh = chunkFixedSize_shape[of "example_env id None" "''/p''" "''/p/big.txt''" test_source]
  from sh k n have "line_start (?cs ! (0 + 1)) = line_end (?cs ! 0) + 1" by blast
  moreover from sh ne len have "line_start (hd ?cs) = 1" "line_end (last ?cs) = 200" by auto
  ultimately show ?thesis using n ne by blast
qed

text \<open>
  The claim as stated fails on a text of one line of 3000 characters: the only chunk holds
  all of them, twice the budget.
\<close>

theorem chunkFixedSize_budget_counterexample:
  "maxChunkChars < length (chunk_text (hd (chunkFixedSize (example_env id None) ''/p'' ''/p/min.txt''
       (replicate 3000 (CHR ''a'')))))"
proof -
  have "map chunk_text (chunkFixedSize (example_env id None) ''/p'' ''/p/min.txt'' (replicate 3000 (CHR ''a'')))
        = [replicate 3000 (CHR ''a'')]"
    by (rule chunkFixedSize_one_line) (simp_all add: newline_def is_ws_def)
  then have "chunk_text (hd (chunkFixedSize (example_env id None) ''/p'' ''/p/min.txt'' (replicate 3000 (CHR ''a''))))
        = replicate 3000 (CHR ''a'')"
    by (cases "chunkFixedSize (example_env id None) ''/p'' ''/p/min.txt'' (replicate 3000 (CHR ''a''))") simp_all
  then show ?thesis by (simp add: maxChunkChars_def)
qed













subsection \<open>Indexing runs\<close>

lemma index_loop_abort:
  "computeHash e w fp = None \<Longrightarrow> index_loop e w r force (fp # fps) st = (st, False)"
  by simp

lemma index_loop_skip:
  "computeHash e w fp = Some h \<Longrightarrow> \<not> force \<and> l_hashMap st (path_relative e r fp) = Some h \<Longrightarrow>
   index_loop e w r force (fp # fps) st = index_loop e w r force fps (st\<lparr>l_skipped := l_skipped st + 1\<rparr>)"
  by (simp add: Let_def)

lemma index_loop_unread:
  "computeHash e w fp = Some h \<Longrightarrow> \<not> (\<not> force \<and> l_hashMap st (path_relative e r fp) = Some h) \<Longrightarrow>
   bytes w fp = None \<Longrightarrow>
   index_loop e w r force (fp # fps) st = index_loop e w r force fps (st\<lparr>l_skipped := l_skipped st + 1\<rparr>)"
  by (auto simp: Let_def)

lemma index_loop_chunk:
  "computeHash e w fp = Some h \<Longrightarrow> \<not> (\<not> force \<and> l_hashMap st (path_relative e r fp) = Some h) \<Longrightarrow>
   bytes w fp = Some src \<Longrightarrow>
   index_loop e w r force (fp # fps) st =
   index_loop e w r force fps
     (st\<lparr>allChunks := allChunks st @ chunkFile e r fp src,
         l_hashMap := (l_hashMap st)(path_relative e r fp \<mapsto> h)\<rparr>)"
  by (auto simp: Let_def)

lemma index_loop_frame:
  assumes "index_loop e w r force fps st = (st', ok)"
    and "k \<notin> path_relative e r ` set fps"
  shows "l_hashMap st' k = l_hashMap st k"
  using assms
proof (induction fps arbitrary: st)
  case Nil
  then show ?case by simp
next
  case (Cons fp fps)
  from Cons.prems(2) have k: "k \<noteq> path_relative e r fp" "k \<notin> path_relative e r ` set fps" by auto
  show ?case
  proof (cases "computeHash e w fp")
    case None
    with Cons.prems(1) show ?thesis by (simp only: index_loop_abort) simp
  next
    case (Some h)
    show ?thesis
    proof (cases "\<not> force \<and> l_hashMap st (path_relative e r fp) = Some h")
      case True
      from Cons.prems(1) have "index_loop e w r force fps (st\<lparr>l_skipped := l_skipped st + 1\<rparr>) = (st', ok)"
        by (simp only: index_loop_skip[OF Some True])
      from Cons.IH[OF this k(2)] show ?thesis by simp
    next
      case False
      show ?thesis
      proof (cases "bytes w fp")
        case None
        from Cons.prems(1) have "index_loop e w r force fps (st\<lparr>l_skipped := l_skipped st + 1\<rparr>) = (st', ok)"
          by (simp only: index_loop_unread[OF Some False None])
        from Cons.IH[OF this k(2)] show ?thesis by simp
      next
        case src: (Some src)
        from Cons.prems(1)
        have "index_loop e w r force fps
                (st\<lparr>allChunks := allChunks st @ chunkFile e r fp src,
                    l_hashMap := (l_hashMap st)(path_relative e r fp \<mapsto> h)\<rparr>) = (st', ok)"
          by (simp only: index_loop_chunk[OF Some False src])
        from Cons.IH[OF this k(2)] show ?thesis using k(1) by simp
      qed
    qed
  qed
qed

lemma index_loop_committed:
  assumes "index_loop e w r force fps st = (st', True)"
    and "inj_on (path_relative e r) (set fps)"
    and "fp \<in> set fps"
  shows "\<exists>h. computeHash e w fp = Some h \<and> l_hashMap st' (path_relative e r fp) = Some h"
  using assms
proof (induction fps arbitrary: st)
  case Nil
  then show ?case by simp
next
  case (Cons f fps)
  from Cons.prems(1) obtain h where h: "computeHash e w f = Some h"
    by (cases "computeHash e w f") simp_all
  then have readable: "bytes w f \<noteq> None" by (auto simp: computeHash_def)
  let ?k = "path_relative e r f"
  have "\<exists>st1. index_loop e w r force fps st1 = (st', True) \<and> l_hashMap st1 ?k = Some h"
  proof (cases "\<not> force \<and> l_hashMap st ?k = Some h")
    case True
    from Cons.prems(1) have "index_loop e w r force fps (st\<lparr>l_skipped := l_skipped st + 1\<rparr>) = (st', True)"
      by (simp only: index_loop_skip[OF h True])
    then show ?thesis using True by (intro exI[of _ "st\<lparr>l_skipped := l_skipped st + 1\<rparr>"]) simp
  next
    case False
    from readable obtain src where src: "bytes w f = Some src" by auto
    from Cons.prems(1)
    have "index_loop e w r force fps
                (st\<lparr>allChunks := allChunks st @ chunkFile e r f src,
                    l_hashMap := (l_hashMap st)(?k \<mapsto> h)\<rparr>) = (st', True)"
      by (simp only: index_loop_chunk[OF h False src])
    then show ?thesis
      by (intro exI[of _ "st\<lparr>allChunks := allChunks st @ chunkFile e r f src,
                    l_hashMap := (l_hashMap st)(?k \<mapsto> h)\<rparr>"]) simp
  qed
  then obtain st1 where st1: "index_loop e w r force fps st1 = (st', True)" "l_hashMap st1 ?k = Some h"
    by blast
  have inj: "inj_on (path_relative e r) (set fps)"
    using Cons.prems(2) by (simp add: inj_on_def)
  show ?case
  proof (cases "fp \<in> set fps")
    case True
    from Cons.IH[OF st1(1) inj True] show ?thesis .
  next
    case False
    with Cons.prems(3) have fp: "fp = f" by simp
    have "?k \<notin> path_relative e r ` set fps"
    proof
      assume "?k \<in> path_relative e r ` set fps"
      then obtain g where g: "g \<in> set fps" "path_relative e r g = ?k" by auto
      with Cons.prems(2) have "g = f" by (auto simp: inj_on_def)
      with g(1) False fp show False by simp
    qed
    from index_loop_frame[OF st1(1) this] st1(2) h fp show ?thesis by simp
  qed
qed

lemma index_loop_unchanged:
  assumes "\<forall>fp \<in> set fps. \<exists>h. computeHash e w fp = Some h \<and> l_hashMap st (path_relative e r fp) = Some h"
  shows "index_loop e w r False fps st = (st\<lparr>l_skipped := l_skipped st + length fps\<rparr>, True)"
  using assms
proof (induction fps arbitrary: st)
  case Nil
  then show ?case by simp
next
  case (Cons f fps)
  from Cons.prems obtain h where h: "computeHash e w f = Some h" "l_hashMap st (path_relative e r f) = Some h"
    by auto
  have "index_loop e w r False fps (st\<lparr>l_skipped := l_skipped st + 1\<rparr>)
        = (st\<lparr>l_skipped := l_skipped st + 1\<rparr>\<lparr>l_skipped := l_skipped (st\<lparr>l_skipped := l_skipped st + 1\<rparr>) + length fps\<rparr>, True)"
    using Cons.prems by (intro Cons.IH) simp
  moreover have "index_loop e w r False (f # fps) st = index_loop e w r False fps (st\<lparr>l_skipped := l_skipped st + 1\<rparr>)"
    using h by (intro index_loop_skip) simp_all
  ultimately show ?case by simp
qed

lemma indexProject_success:
  assumes "indexProject e force (w, s) = ((w1, s1), Inr r1)"
  shows "\<exists>st. index_loop e w (projectRoot s) force (discoverFiles w (projectRoot s) (includeExtensions s))
                \<lparr>l_hashMap = (if force then Map.empty else hashMap s), allChunks = [], l_skipped = 0\<rparr>
              = (st, True) \<and>
              projectRoot s \<noteq> [] \<and> hashMap s1 = l_hashMap st \<and> projectRoot s1 = projectRoot s \<and>
              includeExtensions s1 = includeExtensions s \<and> isIndexed s1 = True \<and>
              total_chunks r1 = length (vectors s1) \<and> new_chunks r1 = length (allChunks st)"
proof -
  let ?files = "discoverFiles w (projectRoot s) (includeExtensions s)"
  let ?s1 = "if force then s\<lparr>vectors := [], hashMap := Map.empty\<rparr> else s"
  obtain st ok where loop: "index_loop e w (projectRoot s) force ?files
        \<lparr>l_hashMap = hashMap ?s1, allChunks = [], l_skipped = 0\<rparr> = (st, ok)"
    by (cases "index_loop e w (projectRoot s) force ?files
        \<lparr>l_hashMap = hashMap ?s1, allChunks = [], l_skipped = 0\<rparr>") auto
  have hm: "hashMap ?s1 = (if force then Map.empty else hashMap s)" by simp
  from assms have root: "projectRoot s \<noteq> []"
    by (auto simp: indexProject_def split: if_splits)
  from assms root loop have ok: "ok"
    by (cases ok) (auto simp: indexProject_def Let_def)
  from assms root loop ok
  have "hashMap s1 = l_hashMap st \<and> projectRoot s1 = projectRoot s \<and>
        includeExtensions s1 = includeExtensions s \<and> isIndexed s1 = True \<and>
        total_chunks r1 = length (vectors s1) \<and> new_chunks r1 = length (allChunks st)"
    by (auto simp: indexProject_def Let_def split: if_splits option.splits)
  then show ?thesis using loop ok root hm by auto
qed

lemma example_paths:
  "path_relative (example_env h m) ''/p'' ''/p/a.txt'' = ''a.txt''"
  "path_basename (example_env h m) ''/p/a.txt'' = ''a.txt''"
  "toLowerCase (path_extname (example_env h m) ''/p/a.txt'') = ''.txt''"
  "path_join (example_env h m) [''/p'', ''a.txt''] = ''/p/a.txt''"
  by (simp_all add: example_env_def posix_relative_def posix_basename_def posix_extname_def
      startsWith_def toLowerCase_def Let_def)

lemma example_env_sel:
  "sha256 (example_env h m) = h"
  "embedder (example_env h m) = m"
  by (simp_all add: example_env_def)

lemma example_chunkFile_hello:
  "chunkFile (example_env h m) ''/p'' ''/p/a.txt'' ''hello'' = [hello_chunk]"
proof -
  have "chunkFixedSize (example_env h m) ''/p'' ''/p/a.txt'' ''hello''
        = [fixed_chunk (path_basename (example_env h m) ''/p/a.txt'')
             (path_relative (example_env h m) ''/p'' ''/p/a.txt'') [''hello''] 1 1]"
    by (rule chunkFixedSize_one_line_chunk) (simp_all add: newline_def is_ws_def)
  then show ?thesis
    by (simp add: chunkFile_def example_paths hello_chunk_def Let_def)
qed

lemma example_chunkFile_blank:
  "chunkFile (example_env h m) ''/p'' ''/p/a.txt'' '' '' = []"
  by (simp add: chunkFile_def example_paths chunkFixedSize_def trim_def is_ws_def Let_def)

lemma example_first_run:
  "indexProject (example_env h (Some example_embedder)) False (hello_world, example_root)
   = ((saveIndex (example_env h (Some example_embedder)) hello_world (indexed_hello h), indexed_hello h),
      Inr \<lparr>status = ''indexed'', total_files = 1, new_chunks = 1, total_chunks = 1, skipped = 0\<rparr>)"
  by (simp add: indexProject_def discoverFiles_def hello_world_def example_world_def computeHash_def
      example_root_def initial_indexer_def example_paths example_chunkFile_hello
      generateEmbeddings_def example_embedder_def indexed_hello_def example_env_sel Let_def)

lemma saveIndex_files [simp]:
  "tree (saveIndex e w s) = tree w" "bytes (saveIndex e w s) = bytes w"
  by (simp_all add: saveIndex_def)

text \<open>
  Claim C2. After a run of \<open>indexProject\<close> that returned a result (with either value of
  \<open>force\<close>), a second run with \<open>force = False\<close> in a world with the same file tree and the
  same file contents returns a result with zero new chunks and the same total, and leaves
  the module state, so the vector store and its length, as it was. The relative paths of
  the discovered files are taken to be distinct, as \<^verbatim>\<open>path.relative\<close> gives them.
\<close>

theorem indexProject_idempotent:
  assumes "indexProject e force (w, s) = ((w1, s1), Inr r1)"
    and "inj_on (path_relative e (projectRoot s)) (set (discoverFiles w (projectRoot s) (includeExtensions s)))"
    and "tree w2 = tree w" and "bytes w2 = bytes w"
  shows "\<exists>w3 r2. indexProject e False (w2, s1) = ((w3, s1), Inr r2) \<and>
           new_chunks r2 = 0 \<and> total_chunks r2 = total_chunks r1 \<and>
           total_chunks r2 = length (vectors s1) \<and> skipped r2 = total_files r2"
proof -
  let ?files = "discoverFiles w (projectRoot s) (includeExtensions s)"
  from indexProject_success[OF assms(1)] obtain st where
    loop: "index_loop e w (projectRoot s) force ?files
             \<lparr>l_hashMap = (if force then Map.empty else hashMap s), allChunks = [], l_skipped = 0\<rparr> = (st, True)"
    and s1: "projectRoot s \<noteq> []" "hashMap s1 = l_hashMap st" "projectRoot s1 = projectRoot s"
      "includeExtensions s1 = includeExtensions s" "isIndexed s1 = True"
      "total_chunks r1 = length (vectors s1)"
    by blast
  have files2: "discoverFiles w2 (projectRoot s) (includeExtensions s) = ?files"
    using assms(3) by (simp add: discoverFiles_def)
  have hash2: "computeHash e w2 fp = computeHash e w fp" for fp
    using assms(4) by (simp add: computeHash_def)
  let ?st0 = "\<lparr>l_hashMap = hashMap s1, allChunks = [], l_skipped = 0\<rparr>"
  have "\<forall>fp \<in> set ?files. \<exists>h. computeHash e w2 fp = Some h \<and>
           l_hashMap ?st0 (path_relative e (projectRoot s) fp) = Some h"
    using index_loop_committed[OF loop assms(2)] s1(2) hash2 by simp
  then have loop2: "index_loop e w2 (projectRoot s) False ?files ?st0
                    = (?st0\<lparr>l_skipped := l_skipped ?st0 + length ?files\<rparr>, True)"
    by (rule index_loop_unchanged)
  have same: "s1\<lparr>hashMap := hashMap s1\<rparr> = s1" "s1\<lparr>isIndexed := True\<rparr> = s1"
    using s1(5) by simp_all
  have "indexProject e False (w2, s1) =
          ((saveIndex e w2 s1, s1),
           Inr \<lparr>status = (if vectors s1 \<noteq> [] then ''up_to_date'' else ''indexed''),
                total_files = length ?files, new_chunks = 0,
                total_chunks = length (vectors s1), skipped = length ?files\<rparr>)"
    using s1(1) by (simp add: indexProject_def s1(3,4) files2 loop2 same Let_def)
  then show ?thesis using s1(6) by simp
qed

theorem indexProject_idempotent_witness:
  "indexProject (example_env id (Some example_embedder)) False (hello_world, example_root)
     = ((saveIndex (example_env id (Some example_embedder)) hello_world (indexed_hello id), indexed_hello id),
        Inr \<lparr>status = ''indexed'', total_files = 1, new_chunks = 1, total_chunks = 1, skipped = 0\<rparr>) \<and>
   inj_on (path_relative (example_env id (Some example_embedder)) (projectRoot example_root))
     (set (discoverFiles hello_world (projectRoot example_root) (includeExtensions example_root))) \<and>
   (\<exists>w3 r2. indexProject (example_env id (Some example_embedder)) False
               (saveIndex (example_env id (Some example_embedder)) hello_world (indexed_hello id), indexed_hello id)
             = ((w3, indexed_hello id), Inr r2) \<and>
           new_chunks r2 = 0 \<and> total_chunks r2 = 1)"
proof -
  let ?e = "example_env id (Some example_embedder)"
  let ?w1 = "saveIndex ?e hello_world (indexed_hello id)"
  have run: "indexProject ?e False (hello_world, example_root)
     = ((?w1, indexed_hello id),
        Inr \<lparr>status = ''indexed'', total_files = 1, new_chunks = 1, total_chunks = 1, skipped = 0\<rparr>)"
    by (rule example_first_run)
  have inj: "inj_on (path_relative ?e (projectRoot example_root))
     (set (discoverFiles hello_world (projectRoot example_root) (includeExtensions example_root)))"
    by (simp add: discoverFiles_def hello_world_def example_world_def)
  have t: "tree ?w1 = tree hello_world" and b: "bytes ?w1 = bytes hello_world" by simp_all
  from indexProject_idempotent[OF run inj t b] run inj show ?thesis by auto
qed

text \<open>
  What the two operations do to the vector store when they return a result: the chunks
  of the files that got new chunks (for \<open>reindexFile\<close>: of the file named) are replaced by
  the new chunks, and every other chunk stays, in order.
\<close>

lemma those_length: "those xs = Some ys \<Longrightarrow> length ys = length xs"
  by (induction xs arbitrary: ys) (auto split: option.splits)

lemma payload_new_entries:
  "length embs = length cs \<Longrightarrow> map payload (map2 new_entry cs embs) = cs"
  by (induction cs arbitrary: embs) (case_tac embs; simp add: new_entry_def)+

lemma map_payload_upsert:
  "map payload (filter (\<lambda>v. P (filepath (payload v))) vs @ new)
   = filter (\<lambda>c. P (filepath c)) (map payload vs) @ map payload new"
  by (simp add: filter_map comp_def)

lemma generateEmbeddings_length:
  "generateEmbeddings e ts = Some embs \<Longrightarrow> length embs = length ts"
  by (auto simp: generateEmbeddings_def dest: those_length split: option.splits)

lemma indexProject_upsert:
  assumes "indexProject e False (w, s) = ((w1, s1), Inr r1)"
  shows "\<exists>cs. new_chunks r1 = length cs \<and>
           map payload (vectors s1) =
             (if cs = [] then map payload (vectors s)
              else filter (\<lambda>c. filepath c \<notin> filepath ` set cs) (map payload (vectors s)) @ cs)"
proof -
  let ?files = "discoverFiles w (projectRoot s) (includeExtensions s)"
  obtain st ok where loop: "index_loop e w (projectRoot s) False ?files
        \<lparr>l_hashMap = hashMap s, allChunks = [], l_skipped = 0\<rparr> = (st, ok)"
    by (cases "index_loop e w (projectRoot s) False ?files
        \<lparr>l_hashMap = hashMap s, allChunks = [], l_skipped = 0\<rparr>") auto
  from assms have root: "projectRoot s \<noteq> []"
    by (auto simp: indexProject_def split: if_splits)
  from assms root loop have ok: "ok"
    by (cases ok) (auto simp: indexProject_def Let_def)
  show ?thesis
  proof (cases "allChunks st = []")
    case True
    with assms root loop ok have "vectors s1 = vectors s" "new_chunks r1 = 0"
      by (auto simp: indexProject_def Let_def)
    then show ?thesis by (intro exI[of _ "[]"]) simp
  next
    case False
    with assms root loop ok obtain embs where
      embs: "generateEmbeddings e (map embed_text (allChunks st)) = Some embs"
      and v: "vectors s1 = filter (\<lambda>v. filepath (payload v) \<notin> set (map filepath (allChunks st))) (vectors s)
                @ map2 new_entry (allChunks st) embs"
      and n: "new_chunks r1 = length (allChunks st)"
      by (auto simp: indexProject_def Let_def split: option.splits)
    have len: "length embs = length (allChunks st)"
      using generateEmbeddings_length[OF embs] by simp
    have "map payload (vectors s1) =
            filter (\<lambda>c. filepath c \<notin> set (map filepath (allChunks st))) (map payload (vectors s))
            @ map payload (map2 new_entry (allChunks st) embs)"
      unfolding v by (rule map_payload_upsert)
    then have "map payload (vectors s1) =
            filter (\<lambda>c. filepath c \<notin> filepath ` set (allChunks st)) (map payload (vectors s)) @ allChunks st"
      by (simp only: payload_new_entries[OF len] set_map)
    then show ?thesis using n False by (intro exI[of _ "allChunks st"]) simp
  qed
qed

lemma reindexFile_upsert:
  assumes "reindexFile e fp (w, s) = ((w1, s1), Inr r1)"
  shows "\<exists>cs. r_chunks r1 = length cs \<and>
           map payload (vectors s1) = filter (\<lambda>c. filepath c \<noteq> fp) (map payload (vectors s)) @ cs"
proof -
  from assms obtain cs embs where
    embs: "generateEmbeddings e (map embed_text cs) = Some embs"
    and v: "vectors s1 = filter (\<lambda>v. filepath (payload v) \<noteq> fp) (vectors s) @ map2 new_entry cs embs"
    and n: "r_chunks r1 = length cs"
    by (auto simp: reindexFile_def Let_def split_def split: if_splits option.splits)
  have len: "length embs = length cs"
    using generateEmbeddings_length[OF embs] by simp
  have "map payload (vectors s1) = filter (\<lambda>c. filepath c \<noteq> fp) (map payload (vectors s))
          @ map payload (map2 new_entry cs embs)"
    unfolding v by (rule map_payload_upsert)
  then have "map payload (vectors s1) = filter (\<lambda>c. filepath c \<noteq> fp) (map payload (vectors s)) @ cs"
    by (simp only: payload_new_entries[OF len])
  then show ?thesis using n by blast
qed

text \<open>
  Claim C1, evaluated where the code departs from it. The store holds the chunk of
  \<^verbatim>\<open>a.txt\<close> (text \<^verbatim>\<open>hello\<close>), as \<open>indexProject\<close> built it. The file is then
  overwritten with a blank, for which the chunker gives no chunk. \<open>indexProject\<close>
  re-indexes the file (it stores the new hash) but keeps the previous chunk in the vector
  store, because old vectors are only removed inside \<^verbatim>\<open>if (allChunks.length > 0)\<close>
  and only for files that have a new chunk. \<open>reindexFile\<close>, on the same state, removes it.
\<close>

theorem indexProject_keeps_stale_chunks:
  "map (\<lambda>v. chunk_text (payload v)) (vectors (indexed_hello h)) = [''hello''] \<and>
   snd (fst (indexProject (example_env h (Some example_embedder)) False (hello_world, example_root)))
     = indexed_hello h \<and>
   chunkFile (example_env h (Some example_embedder)) ''/p'' ''/p/a.txt'' '' '' = [] \<and>
   hashMap (snd (fst (indexProject (example_env h (Some example_embedder)) False
                        (blank_world, indexed_hello h)))) ''a.txt'' = Some (h '' '') \<and>
   vectors (snd (fst (indexProject (example_env h (Some example_embedder)) False
                        (blank_world, indexed_hello h)))) = vectors (indexed_hello h) \<and>
   vectors (snd (fst (reindexFile (example_env h (Some example_embedder)) ''a.txt''
                        (blank_world, indexed_hello h)))) = []"
proof -
  let ?e = "example_env h (Some example_embedder)"
  have a: "map (\<lambda>v. chunk_text (payload v)) (vectors (indexed_hello h)) = [''hello'']"
    by (simp add: indexed_hello_def new_entry_def hello_chunk_def win_def trim_def is_ws_def newline_def)
  have b: "snd (fst (indexProject ?e False (hello_world, example_root))) = indexed_hello h"
    by (simp add: example_first_run)
  have c: "chunkFile ?e ''/p'' ''/p/a.txt'' '' '' = []"
    by (rule example_chunkFile_blank)
  have d: "hashMap (snd (fst (indexProject ?e False (blank_world, indexed_hello h)))) ''a.txt'' = Some (h '' '')"
    by (simp add: indexProject_def discoverFiles_def blank_world_def example_world_def computeHash_def
      example_root_def initial_indexer_def example_paths example_chunkFile_blank
      indexed_hello_def example_env_sel Let_def)
  have e: "vectors (snd (fst (indexProject ?e False (blank_world, indexed_hello h)))) = vectors (indexed_hello h)"
    by (simp add: indexProject_def discoverFiles_def blank_world_def example_world_def computeHash_def
      example_root_def initial_indexer_def example_paths example_chunkFile_blank
      indexed_hello_def example_env_sel Let_def)
  have f: "vectors (snd (fst (reindexFile ?e ''a.txt'' (blank_world, indexed_hello h)))) = []"
    by (simp add: reindexFile_def saveSnapshot_def example_join blank_world_def example_world_def computeHash_def
      example_root_def initial_indexer_def example_paths example_chunkFile_blank
      generateEmbeddings_def indexed_hello_def example_env_sel new_entry_def hello_chunk_def
      Let_def split_def)
  from a b c d e f show ?thesis by blast
qed

text \<open>
  Claim C5, evaluated where the code departs from it. \<open>indexProject\<close> writes the hash of a
  file into the hash map inside the file loop, before any embedding is computed. When the
  embedding model cannot be loaded the run throws, the vector store is still empty, and
  the hash of \<^verbatim>\<open>a.txt\<close> is already stored; the next run, with a working model, then
  skips the file as unchanged and indexes nothing. \<open>reindexFile\<close> stores the hash only
  after embedding and insertion: with the failing model it leaves the hash map unchanged.
\<close>

theorem indexProject_commits_hash_before_embedding:
  "snd (indexProject (example_env h None) False (hello_world, example_root)) = Inl Thrown \<and>
   hashMap (snd (fst (indexProject (example_env h None) False (hello_world, example_root)))) ''a.txt''
     = Some (h ''hello'') \<and>
   vectors (snd (fst (indexProject (example_env h None) False (hello_world, example_root)))) = [] \<and>
   snd (indexProject (example_env h (Some example_embedder)) False
          (hello_world, snd (fst (indexProject (example_env h None) False (hello_world, example_root)))))
     = Inr \<lparr>status = ''indexed'', total_files = 1, new_chunks = 0, total_chunks = 0, skipped = 1\<rparr> \<and>
   hashMap (snd (fst (reindexFile (example_env h None) ''a.txt'' (hello_world, example_root)))) ''a.txt''
     = None"
proof -
  have run: "indexProject (example_env h None) False (hello_world, example_root)
      = ((hello_world, example_root\<lparr>hashMap := [''a.txt'' \<mapsto> h ''hello'']\<rparr>), Inl Thrown)"
    by (simp add: indexProject_def discoverFiles_def hello_world_def example_world_def computeHash_def
      example_root_def initial_indexer_def example_paths example_chunkFile_hello
      generateEmbeddings_def example_env_sel Let_def)
  have retry: "snd (indexProject (example_env h (Some example_embedder)) False
          (hello_world, example_root\<lparr>hashMap := [''a.txt'' \<mapsto> h ''hello'']\<rparr>))
     = Inr \<lparr>status = ''indexed'', total_files = 1, new_chunks = 0, total_chunks = 0, skipped = 1\<rparr>"
    by (simp add: indexProject_def discoverFiles_def hello_world_def example_world_def computeHash_def
      example_root_def initial_indexer_def example_paths example_env_sel Let_def)
  have sibling: "hashMap (snd (fst (reindexFile (example_env h None) ''a.txt'' (hello_world, example_root)))) ''a.txt''
     = None"
    by (simp add: reindexFile_def saveSnapshot_def example_join hello_world_def example_world_def computeHash_def
      example_root_def initial_indexer_def example_paths example_chunkFile_hello
      generateEmbeddings_def example_env_sel Let_def split_def)
  have "hashMap (example_root\<lparr>hashMap := [''a.txt'' \<mapsto> h ''hello'']\<rparr>) ''a.txt'' = Some (h ''hello'')"
    and "vectors (example_root\<lparr>hashMap := [''a.txt'' \<mapsto> h ''hello'']\<rparr>) = []"
    by (simp_all add: example_root_def initial_indexer_def)
  then show ?thesis unfolding run snd_conv fst_conv using retry sibling by blast
qed

subsection \<open>Switching projects\<close>

text \<open>Run without interruption, the two parts of \<^verbatim>\<open>indexProject\<close> are the whole call.\<close>

lemma indexProject_split:
  "indexProject e force ws =
     (case indexProject_start e force ws of
        (ws1, Inl out) \<Rightarrow> (ws1, out)
      | (ws1, Inr p) \<Rightarrow> indexProject_resume e p ws1)"
  by (auto simp: indexProject_def indexProject_start_def indexProject_resume_def Let_def
      split: prod.splits option.splits)
























end
